theory Spec2Isabelle
  imports Complex_Main
begin

unbundle bit_operations_syntax

section \<open>Display driver (Driver/tft\_ili9341.py)\<close>

text \<open>
  The driver talks to the controller through three things: the data/command select pin,
  the chip select pin and the SPI bus. Every call of the source on one of them is one
  event; a driver routine is modelled by the list of events it produces, in order.
  Bytes are Python integers; each list handed to the bus is built from values masked
  with \<open>0xFF\<close>, so \<open>bytes([...])\<close> never raises.
\<close>

datatype bus_event = DC bool | CS bool | SPI "int list"

record ILI9341 =
  width :: int
  height :: int

definition ILI9341_init :: ILI9341 where
  \<comment> \<open>the constructor's defaults: \<open>width=240, height=320\<close>\<close>
  "ILI9341_init = \<lparr>width = 240, height = 320\<rparr>"

definition write_cmd :: "int \<Rightarrow> bus_event list" where
  "write_cmd cmd = [DC False, CS False, SPI [cmd], CS True]"

definition write_data :: "int list \<Rightarrow> bus_event list" where
  "write_data data_bytes = [DC True, CS False, SPI data_bytes, CS True]"

definition set_window :: "int \<Rightarrow> int \<Rightarrow> int \<Rightarrow> int \<Rightarrow> bus_event list" where
  "set_window x0 y0 x1 y1 =
     write_cmd 0x2A
     @ write_data [drop_bit 8 x0 AND 0xFF, x0 AND 0xFF, drop_bit 8 x1 AND 0xFF, x1 AND 0xFF]
     @ write_cmd 0x2B
     @ write_data [drop_bit 8 y0 AND 0xFF, y0 AND 0xFF, drop_bit 8 y1 AND 0xFF, y1 AND 0xFF]
     @ write_cmd 0x2C"

definition set_window_for_read :: "int \<Rightarrow> int \<Rightarrow> int \<Rightarrow> int \<Rightarrow> bus_event list" where
  "set_window_for_read x0 y0 x1 y1 =
     write_cmd 0x2A
     @ write_data [drop_bit 8 x0 AND 0xFF, x0 AND 0xFF, drop_bit 8 x1 AND 0xFF, x1 AND 0xFF]
     @ write_cmd 0x2B
     @ write_data [drop_bit 8 y0 AND 0xFF, y0 AND 0xFF, drop_bit 8 y1 AND 0xFF, y1 AND 0xFF]
     @ write_cmd 0x2E"

text \<open>
  The streaming loop of \<open>fill_rect\<close>: while pixels remain, write the first \<open>n * 2\<close>
  bytes of the 64-pixel chunk, with \<open>n\<close> the smaller of 64 and what remains.
\<close>

function stream_pixels :: "int list \<Rightarrow> int \<Rightarrow> bus_event list" where
  "stream_pixels chunk pixels =
     (if pixels > 0
      then (let n = (if pixels < 64 then pixels else 64)
            in SPI (take (nat (n * 2)) chunk) # stream_pixels chunk (pixels - n))
      else [])"
  by pat_completeness auto
termination
  by (relation "measure (\<lambda>(chunk, pixels). nat pixels)") auto

declare stream_pixels.simps [simp del]

definition tft_fill_rect :: "ILI9341 \<Rightarrow> int \<Rightarrow> int \<Rightarrow> int \<Rightarrow> int \<Rightarrow> int \<Rightarrow> bus_event list" where
  "tft_fill_rect d x y w h colour =
     (if w \<le> 0 \<or> h \<le> 0 then []
      else let x1 = x + w - 1; y1 = y + h - 1
           in if x < 0 \<or> y < 0 \<or> x1 \<ge> width d \<or> y1 \<ge> height d then []
              else let hi = drop_bit 8 colour AND 0xFF;
                       lo = colour AND 0xFF;
                       chunk = concat (replicate 64 [hi, lo]);
                       pixels = w * h
                   in set_window x y x1 y1
                      @ [DC True, CS False] @ stream_pixels chunk pixels @ [CS True])"

definition tft_clear :: "ILI9341 \<Rightarrow> int \<Rightarrow> bus_event list" where
  "tft_clear d colour = tft_fill_rect d 0 0 (width d) (height d) colour"

definition blit_rgb565 :: "int \<Rightarrow> int \<Rightarrow> int \<Rightarrow> int \<Rightarrow> int list \<Rightarrow> bus_event list" where
  "blit_rgb565 x y w h buf = set_window x y (x + w - 1) (y + h - 1) @ write_data buf"

text \<open>The bytes that went over the bus, in order, whatever the chunking.\<close>

fun spi_bytes :: "bus_event list \<Rightarrow> int list" where
  "spi_bytes [] = []"
| "spi_bytes (SPI bs # es) = bs @ spi_bytes es"
| "spi_bytes (_ # es) = spi_bytes es"

text \<open>
  The wire format in the words of the specification: a 16-bit value goes out big-endian,
  high byte then low byte.
\<close>

definition be16 :: "int \<Rightarrow> int list" where
  "be16 v = [(v mod 65536) div 256, v mod 256]"

section \<open>Graphics layer (Engine/gfx\_pico.py)\<close>

text \<open>
  A sprite is the dictionary \<open>{"w", "h", "data", "path"}\<close> of the source; the fields
  carry a prefix because \<open>w\<close> and \<open>h\<close> are also the names of arguments.
\<close>

record sprite =
  spr_w :: int
  spr_h :: int
  spr_data :: "int list"
  spr_path :: "string option"

type_synonym text_key = "string \<times> int \<times> int option \<times> int"

record PicoGFX =
  tft :: ILI9341
  gfx_width :: int
  gfx_height :: int
  text_cache :: "text_key \<rightharpoonup> sprite"

definition PicoGFX_init :: PicoGFX where
  "PicoGFX_init =
     \<lparr>tft = ILI9341_init, gfx_width = width ILI9341_init, gfx_height = height ILI9341_init,
      text_cache = Map.empty\<rparr>"

definition gfx_clear :: "PicoGFX \<Rightarrow> int \<Rightarrow> bus_event list" where
  "gfx_clear g colour = tft_clear (tft g) colour"

definition gfx_fill_rect :: "PicoGFX \<Rightarrow> int \<Rightarrow> int \<Rightarrow> int \<Rightarrow> int \<Rightarrow> int \<Rightarrow> bus_event list" where
  "gfx_fill_rect g x y w h colour = tft_fill_rect (tft g) x y w h colour"

definition safe_fill_rect :: "PicoGFX \<Rightarrow> int \<Rightarrow> int \<Rightarrow> int \<Rightarrow> int \<Rightarrow> int \<Rightarrow> bus_event list" where
  "safe_fill_rect g x y w h colour =
     (if w \<le> 0 \<or> h \<le> 0 then []
      else let x0 = max 0 x;
               y0 = max 0 y;
               x1 = min (gfx_width g) (x + w);
               y1 = min (gfx_height g) (y + h);
               cw = x1 - x0;
               ch = y1 - y0
           in if cw \<le> 0 \<or> ch \<le> 0 then []
              else gfx_fill_rect g x0 y0 cw ch colour)"

definition draw_image_rgb565 :: "int \<Rightarrow> int \<Rightarrow> int \<Rightarrow> int \<Rightarrow> int list \<Rightarrow> bus_event list" where
  "draw_image_rgb565 x y w h buf = blit_rgb565 x y w h buf"

definition clear_caches :: "PicoGFX \<Rightarrow> PicoGFX" where
  "clear_caches g = g\<lparr>text_cache := Map.empty\<rparr>"

definition get_text_size :: "string \<Rightarrow> int \<Rightarrow> int \<times> int" where
  "get_text_size text scale =
     (let scale = (if scale < 1 then 1 else scale);
          base_w = 8 * int (length text);
          base_h = 8
      in (base_w * scale, base_h * scale))"

definition draw_sprite :: "sprite \<Rightarrow> int \<Rightarrow> int \<Rightarrow> bus_event list" where
  "draw_sprite spr x y = draw_image_rgb565 x y (spr_w spr) (spr_h spr) (spr_data spr)"

subsection \<open>Text buffers\<close>

text \<open>
  \<open>framebuf.FrameBuffer.text\<close> belongs to the MicroPython firmware, not to this
  repository. It draws into the bytearray it was built on, in place, so it cannot change
  the buffer's length. Its effect is a parameter of the model: for the text and colour
  drawn at \<open>(0, 0)\<close> into a buffer \<open>8 * len(text)\<close> wide and 8 high, the byte it stores at
  each offset, or \<open>None\<close> where it leaves the byte as it was.
\<close>

type_synonym glyph_writer = "string \<Rightarrow> int \<Rightarrow> nat \<Rightarrow> int option"

definition fb_text :: "glyph_writer \<Rightarrow> string \<Rightarrow> int \<Rightarrow> int list \<Rightarrow> int list" where
  "fb_text glyphs text colour buf =
     map (\<lambda>i. case glyphs text colour i of Some b \<Rightarrow> b | None \<Rightarrow> buf ! i) [0..<length buf]"

text \<open>
  The background loop \<open>for i in range(0, len(buf), 2): buf[i] = hi; buf[i + 1] = lo\<close>
  walks the buffer two bytes at a time. Every buffer it is given is allocated with
  \<open>w * h * 2\<close> bytes; on a buffer of odd length the source would set the last byte and
  then raise IndexError, which is the second equation.
\<close>

fun fill_bg :: "int \<Rightarrow> int \<Rightarrow> int list \<Rightarrow> int list" where
  "fill_bg hi lo (b0 # b1 # rest) = hi # lo # fill_bg hi lo rest"
| "fill_bg hi lo [b0] = [hi]"
| "fill_bg hi lo [] = []"

definition tft_text :: "glyph_writer \<Rightarrow> int \<Rightarrow> int \<Rightarrow> string \<Rightarrow> int \<Rightarrow> int \<Rightarrow> bus_event list" where
  "tft_text glyphs x y text colour bg =
     (if text = [] then []
      else let w = 8 * int (length text);
               h = 8;
               buf = replicate (nat (w * h * 2)) 0;
               hi_bg = drop_bit 8 bg AND 0xFF;
               lo_bg = bg AND 0xFF;
               buf = fill_bg hi_bg lo_bg buf;
               buf = fb_text glyphs text colour buf
           in blit_rgb565 x y w h buf)"

text \<open>
  The nearest-neighbour loops of \<open>_render_text_sprite\<close>. All quantities are non-negative
  there (\<open>scale \<ge> 1\<close> after the clamp), so they are kept as naturals and \<open>//\<close> is \<open>div\<close>.
\<close>

definition scale_pixel :: "nat \<Rightarrow> nat \<Rightarrow> nat \<Rightarrow> int list \<Rightarrow> nat \<Rightarrow> nat \<Rightarrow> int list \<Rightarrow> int list" where
  "scale_pixel scale base_w out_w small_buf sy sx out_buf =
     (let src_y = sy div scale;
          src_x = sx div scale;
          src_index = 2 * (src_y * base_w + src_x);
          dst_index = 2 * (sy * out_w + sx)
      in (out_buf[dst_index := small_buf ! src_index])[dst_index + 1 := small_buf ! (src_index + 1)])"

definition scale_buffer :: "nat \<Rightarrow> nat \<Rightarrow> nat \<Rightarrow> nat \<Rightarrow> int list \<Rightarrow> int list \<Rightarrow> int list" where
  "scale_buffer scale base_w out_w out_h small_buf out_buf =
     fold (\<lambda>sy. fold (\<lambda>sx. scale_pixel scale base_w out_w small_buf sy sx) [0..<out_w])
          [0..<out_h] out_buf"

definition small_text_buf :: "glyph_writer \<Rightarrow> string \<Rightarrow> int \<Rightarrow> int option \<Rightarrow> int list" where
  \<comment> \<open>step 1 of \<open>_render_text_sprite\<close>: the 1x buffer\<close>
  "small_text_buf glyphs text colour bg =
     (let base_w = 8 * int (length text);
          base_h = 8;
          small_buf = replicate (nat (base_w * base_h * 2)) 0;
          (hi_bg, lo_bg) = (case bg of None \<Rightarrow> (0, 0)
                            | Some b \<Rightarrow> (drop_bit 8 b AND 0xFF, b AND 0xFF));
          small_buf = fill_bg hi_bg lo_bg small_buf
      in fb_text glyphs text colour small_buf)"

definition render_text_sprite :: "glyph_writer \<Rightarrow> string \<Rightarrow> int \<Rightarrow> int option \<Rightarrow> int \<Rightarrow> sprite" where
  "render_text_sprite glyphs text colour bg scale =
     (let scale = (if scale < 1 then 1 else scale);
          base_w = 8 * int (length text);
          base_h = 8;
          small_buf = small_text_buf glyphs text colour bg
      in if scale = 1
         then \<lparr>spr_w = base_w, spr_h = base_h, spr_data = small_buf, spr_path = None\<rparr>
         else let out_w = base_w * scale;
                  out_h = base_h * scale;
                  out_buf = replicate (nat (out_w * out_h * 2)) 0;
                  out_buf = scale_buffer (nat scale) (nat base_w) (nat out_w) (nat out_h)
                              small_buf out_buf
              in \<lparr>spr_w = out_w, spr_h = out_h, spr_data = out_buf, spr_path = None\<rparr>)"

definition get_text_sprite ::
  "glyph_writer \<Rightarrow> PicoGFX \<Rightarrow> string \<Rightarrow> int \<Rightarrow> int option \<Rightarrow> int \<Rightarrow> sprite \<times> PicoGFX" where
  "get_text_sprite glyphs g text colour bg scale =
     (let key = (text, colour, bg, scale)
      in case text_cache g key of
           Some spr \<Rightarrow> (spr, g)
         | None \<Rightarrow>
             (let spr = render_text_sprite glyphs text colour bg scale
              in (spr, g\<lparr>text_cache := (text_cache g)(key \<mapsto> spr)\<rparr>)))"

definition clamp_text_pos :: "PicoGFX \<Rightarrow> int \<Rightarrow> int \<Rightarrow> int \<Rightarrow> int \<Rightarrow> int \<times> int" where
  \<comment> \<open>the four position tests of \<open>draw_text\<close>, in the source's order\<close>
  "clamp_text_pos g x y w h =
     (let x = (if x < 0 then 0 else x);
          y = (if y < 0 then 0 else y);
          x = (if x + w > gfx_width g then gfx_width g - w else x);
          y = (if y + h > gfx_height g then gfx_height g - h else y)
      in (x, y))"

definition draw_text ::
  "glyph_writer \<Rightarrow> PicoGFX \<Rightarrow> int \<Rightarrow> int \<Rightarrow> string \<Rightarrow> int \<Rightarrow> int option \<Rightarrow> int
     \<Rightarrow> PicoGFX \<times> bus_event list" where
  "draw_text glyphs g x y text colour bg scale =
     (if text = [] then (g, [])
      else let scale = (if scale < 1 then 1 else scale);
               (w, h) = get_text_size text scale;
               (x, y) = clamp_text_pos g x y w h
           in if scale = 1 \<and> bg = None
              then (g, tft_text glyphs x y text colour 0x0000)
              else let (spr, g') = get_text_sprite glyphs g text colour bg scale
                   in (g', draw_sprite spr x y))"

text \<open>Reading one pixel (two bytes) of a row-major buffer of the given width.\<close>

definition pixel_at :: "int list \<Rightarrow> nat \<Rightarrow> nat \<Rightarrow> nat \<Rightarrow> int \<times> int" where
  "pixel_at buf w px py = (buf ! (2 * (py * w + px)), buf ! (2 * (py * w + px) + 1))"

section \<open>Engine (Engine/engine\_core.py)\<close>

text \<open>
  The fields \<open>a\<close> and \<open>b\<close> of the source are \<open>btn_a\<close> and \<open>btn_b\<close> here, the other
  names are the source's.
\<close>

record InputState =
  up :: bool
  down :: bool
  left :: bool
  right :: bool
  btn_a :: bool
  btn_b :: bool
  up_pressed :: bool
  down_pressed :: bool
  left_pressed :: bool
  right_pressed :: bool
  a_pressed :: bool
  b_pressed :: bool

definition InputState_init :: InputState where
  "InputState_init =
     \<lparr>up = False, down = False, left = False, right = False, btn_a = False, btn_b = False,
      up_pressed = False, down_pressed = False, left_pressed = False, right_pressed = False,
      a_pressed = False, b_pressed = False\<rparr>"

text \<open>
  \<open>frame_time\<close> is a float that the source only uses as \<open>int(self.frame_time * 1000)\<close>;
  the engine record keeps that integer, 33 for the default rate of 30 frames a second.
\<close>

record 'x Engine =
  gfx :: 'x
  target_fps :: int
  frame_time_ms :: int
  current_input :: InputState
  prev_input :: InputState
  running :: bool
  last_up_press_time :: "int option"
  double_tap_threshold_ms :: int

definition Engine_init :: "'x \<Rightarrow> 'x Engine" where
  "Engine_init x =
     \<lparr>gfx = x, target_fps = 30, frame_time_ms = 33,
      current_input = InputState_init, prev_input = InputState_init, running = True,
      last_up_press_time = None, double_tap_threshold_ms = 400\<rparr>"

text \<open>
  The input provider reads the hardware; what it returns at a tick is an input of the
  model, \<open>None\<close> when the engine was built without a provider.
\<close>

definition update_input :: "InputState option \<Rightarrow> 'x Engine \<Rightarrow> 'x Engine" where
  "update_input provided e =
     (let raw = (case provided of None \<Rightarrow> InputState_init | Some r \<Rightarrow> r);
          prev = current_input e;
          cur = InputState_init
                  \<lparr>up := up raw, down := down raw, left := left raw, right := right raw,
                   btn_a := btn_a raw, btn_b := btn_b raw\<rparr>;
          cur = cur\<lparr>up_pressed := up cur \<and> \<not> up prev,
                    down_pressed := down cur \<and> \<not> down prev,
                    left_pressed := left cur \<and> \<not> left prev,
                    right_pressed := right cur \<and> \<not> right prev,
                    a_pressed := btn_a cur \<and> \<not> btn_a prev,
                    b_pressed := btn_b cur \<and> \<not> btn_b prev\<rparr>
      in e\<lparr>prev_input := prev, current_input := cur\<rparr>)"

text \<open>
  A game is an object with a state of its own and methods on it; the optional methods
  are \<open>None\<close> when \<open>hasattr\<close> is false. Every call the engine makes is logged.
\<close>

datatype call =
    OnUpPressed | OnDownPressed | OnLeftPressed | OnRightPressed | OnAPressed | OnBPressed
  | Reset | Update real InputState | ShouldRedraw | Draw | Present | SleepMs int

record ('g, 'x) Game =
  update :: "real \<Rightarrow> InputState \<Rightarrow> 'g \<Rightarrow> 'g"
  draw :: "'x \<Rightarrow> 'g \<Rightarrow> 'g \<times> 'x"
  should_redraw :: "('g \<Rightarrow> bool \<times> 'g) option"
  reset :: "('g \<Rightarrow> 'g) option"
  on_up_pressed :: "('g \<Rightarrow> 'g) option"
  on_down_pressed :: "('g \<Rightarrow> 'g) option"
  on_left_pressed :: "('g \<Rightarrow> 'g) option"
  on_right_pressed :: "('g \<Rightarrow> 'g) option"
  on_a_pressed :: "('g \<Rightarrow> 'g) option"
  on_b_pressed :: "('g \<Rightarrow> 'g) option"

definition call_if :: "bool \<Rightarrow> ('g \<Rightarrow> 'g) option \<Rightarrow> call \<Rightarrow> 'g \<times> call list \<Rightarrow> 'g \<times> call list" where
  \<comment> \<open>\<open>if s.X_pressed and hasattr(game, "on_X_pressed"): game.on_X_pressed()\<close>\<close>
  "call_if pressed handler c st =
     (case handler of
        Some f \<Rightarrow> if pressed then (f (fst st), snd st @ [c]) else st
      | None \<Rightarrow> st)"

definition dispatch_input_events :: "('g, 'x) Game \<Rightarrow> 'x Engine \<Rightarrow> 'g \<Rightarrow> 'g \<times> call list" where
  "dispatch_input_events game e g =
     (let s = current_input e;
          st = (g, []);
          st = call_if (up_pressed s) (on_up_pressed game) OnUpPressed st;
          st = call_if (down_pressed s) (on_down_pressed game) OnDownPressed st;
          st = call_if (left_pressed s) (on_left_pressed game) OnLeftPressed st;
          st = call_if (right_pressed s) (on_right_pressed game) OnRightPressed st;
          st = call_if (a_pressed s) (on_a_pressed game) OnAPressed st;
          st = call_if (b_pressed s) (on_b_pressed game) OnBPressed st
      in st)"

text \<open>
  The state of the loop in \<open>run\<close>: the engine, the game, and the two locals that live
  across iterations. The readings of the clock during one iteration are inputs of the
  model, as is the sample of the buttons.
\<close>

record ('g, 'x) loop_state =
  eng :: "'x Engine"
  game_state :: 'g
  last_time :: int
  first_frame :: bool

record tick_env =
  now_ms :: int
  provided_input :: "InputState option"
  end_ms :: int

text \<open>
  \<open>time.ticks_diff\<close> is the firmware's; it is the first argument of the loop.
  Steps 2 to 4 of an iteration (update, draw if needed, frame limiting):
\<close>

definition frame_body ::
  "(int \<Rightarrow> int \<Rightarrow> int) \<Rightarrow> ('g, 'x) Game \<Rightarrow> tick_env \<Rightarrow> real \<Rightarrow> ('g, 'x) loop_state \<Rightarrow> call list
     \<Rightarrow> ('g, 'x) loop_state \<times> call list" where
  "frame_body ticks_diff game env dt st calls =
     (let e = eng st;
          g = update game dt (current_input e) (game_state st);
          calls = calls @ [Update dt (current_input e)];
          (should_draw, g, calls) =
             (case should_redraw game of
                None \<Rightarrow> (True, g, calls)
              | Some f \<Rightarrow> (let (r, g') = f g in (r \<or> first_frame st, g', calls @ [ShouldRedraw])));
          (g, x, calls) =
             (if should_draw
              then (let (g', x') = draw game (gfx e) g in (g', x', calls @ [Draw, Present]))
              else (g, gfx e, calls));
          elapsed_ms = ticks_diff (end_ms env) (now_ms env);
          spare = frame_time_ms e - elapsed_ms;
          calls = (if spare > 0 then calls @ [SleepMs spare] else calls)
      in (st\<lparr>eng := e\<lparr>gfx := x\<rparr>, game_state := g, first_frame := False\<rparr>, calls))"

definition run_tick ::
  "(int \<Rightarrow> int \<Rightarrow> int) \<Rightarrow> ('g, 'x) Game \<Rightarrow> tick_env \<Rightarrow> ('g, 'x) loop_state
     \<Rightarrow> ('g, 'x) loop_state \<times> call list" where
  "run_tick ticks_diff game env st =
     (let now = now_ms env;
          dt_ms = ticks_diff now (last_time st);
          dt = real_of_int dt_ms / 1000;
          e = update_input (provided_input env) (eng st);
          (g, calls) = dispatch_input_events game e (game_state st);
          st = st\<lparr>last_time := now, game_state := g\<rparr>
      in if up_pressed (current_input e)
         then (case last_up_press_time e of
                 Some t \<Rightarrow>
                   (let diff = ticks_diff now t
                    in if diff \<le> double_tap_threshold_ms e
                       then (let e = e\<lparr>last_up_press_time := None\<rparr>
                             in case reset game of
                                  Some f \<Rightarrow> (st\<lparr>eng := e, game_state := f g\<rparr>, calls @ [Reset])
                                | None \<Rightarrow> (st\<lparr>eng := e\<rparr>, calls))
                       else frame_body ticks_diff game env dt
                              (st\<lparr>eng := e\<lparr>last_up_press_time := Some now\<rparr>\<rparr>) calls)
               | None \<Rightarrow>
                   frame_body ticks_diff game env dt
                     (st\<lparr>eng := e\<lparr>last_up_press_time := Some now\<rparr>\<rparr>) calls)
         else frame_body ticks_diff game env dt (st\<lparr>eng := e\<rparr>) calls)"

text \<open>
  The loop runs as long as \<open>_running\<close> holds and the environment supplies samples; the
  result lists, for every iteration, the state it left and the calls it made.
\<close>

fun run_ticks ::
  "(int \<Rightarrow> int \<Rightarrow> int) \<Rightarrow> ('g, 'x) Game \<Rightarrow> tick_env list \<Rightarrow> ('g, 'x) loop_state
     \<Rightarrow> (('g, 'x) loop_state \<times> call list) list" where
  "run_ticks ticks_diff game [] st = []"
| "run_ticks ticks_diff game (env # envs) st =
     (if running (eng st)
      then (let r = run_tick ticks_diff game env st
            in r # run_ticks ticks_diff game envs (fst r))
      else [])"

definition run ::
  "(int \<Rightarrow> int \<Rightarrow> int) \<Rightarrow> ('g, 'x) Game \<Rightarrow> int \<Rightarrow> tick_env list \<Rightarrow> 'x Engine \<Rightarrow> 'g
     \<Rightarrow> (('g, 'x) loop_state \<times> call list) list" where
  \<comment> \<open>\<open>t0\<close> is the reading of the clock before the loop\<close>
  "run ticks_diff game t0 envs e g =
     run_ticks ticks_diff game envs
       \<lparr>eng = e\<lparr>running := True\<rparr>, game_state = g, last_time = t0, first_frame = True\<rparr>"

definition stop :: "'x Engine \<Rightarrow> 'x Engine" where
  "stop e = e\<lparr>running := False\<rparr>"

text \<open>The raw levels the engine sees at a tick.\<close>

definition raw_of :: "tick_env \<Rightarrow> InputState" where
  "raw_of env = (case provided_input env of None \<Rightarrow> InputState_init | Some r \<Rightarrow> r)"

section \<open>Notions of the specification\<close>

text \<open>
  A window \<open>(x0, y0, x1, y1)\<close> lies fully within the surface \<open>[0,width) \<times> [0,height)\<close>
  when both of its corners do.
\<close>

definition within_surface :: "ILI9341 \<Rightarrow> int \<Rightarrow> int \<Rightarrow> int \<Rightarrow> int \<Rightarrow> bool" where
  "within_surface d x0 y0 x1 y1 \<longleftrightarrow>
     0 \<le> x0 \<and> x0 < width d \<and> 0 \<le> x1 \<and> x1 < width d \<and>
     0 \<le> y0 \<and> y0 < height d \<and> 0 \<le> y1 \<and> y1 < height d"

text \<open>Two glyph writers for computing with the model: one stores nothing, one stores the
  low colour byte into the first four bytes.\<close>

definition blank_glyphs :: glyph_writer where
  "blank_glyphs text colour i = None"

definition stripe_glyphs :: glyph_writer where
  "stripe_glyphs text colour i = (if i < 4 then Some (colour AND 0xFF) else None)"

text \<open>
  Edge detection in the words of the specification: for each of the six buttons, in the
  order up, down, left, right, a, b, the raw level now and not the raw level before.
\<close>

definition edge_flags :: "InputState \<Rightarrow> InputState \<Rightarrow> bool list" where
  "edge_flags raw prev =
     [up raw \<and> \<not> up prev, down raw \<and> \<not> down prev, left raw \<and> \<not> left prev,
      right raw \<and> \<not> right prev, btn_a raw \<and> \<not> btn_a prev, btn_b raw \<and> \<not> btn_b prev]"

definition pressed_flags :: "InputState \<Rightarrow> bool list" where
  "pressed_flags s =
     [up_pressed s, down_pressed s, left_pressed s, right_pressed s, a_pressed s, b_pressed s]"

text \<open>
  A double tap in the words of the specification: a press edge on up while a candidate
  time is recorded and the time elapsed since the candidate, as \<open>ticks_diff\<close> measures it,
  is at most the threshold.
\<close>

definition double_tap :: "(int \<Rightarrow> int \<Rightarrow> int) \<Rightarrow> tick_env \<Rightarrow> ('g, 'x) loop_state \<Rightarrow> bool" where
  "double_tap ticks_diff env st \<longleftrightarrow>
     up (raw_of env) \<and> \<not> up (current_input (eng st)) \<and>
     (case last_up_press_time (eng st) of
        None \<Rightarrow> False
      | Some t \<Rightarrow> ticks_diff (now_ms env) t \<le> double_tap_threshold_ms (eng st))"

text \<open>The calls that button dispatch can make, and the calls of steps 2 to 4.\<close>

definition button_calls :: "call set" where
  "button_calls =
     {OnUpPressed, OnDownPressed, OnLeftPressed, OnRightPressed, OnAPressed, OnBPressed}"

fun frame_call :: "call \<Rightarrow> bool" where
  "frame_call (Update dt s) = True"
| "frame_call ShouldRedraw = True"
| "frame_call Draw = True"
| "frame_call Present = True"
| "frame_call (SleepMs n) = True"
| "frame_call _ = False"

text \<open>A sample of the buttons with only up at the given level, read at the given time.\<close>

definition up_sample :: "int \<Rightarrow> bool \<Rightarrow> tick_env" where
  "up_sample t u =
     \<lparr>now_ms = t, provided_input = Some (InputState_init\<lparr>up := u\<rparr>), end_ms = t\<rparr>"

text \<open>A game for computing with the model: its state counts the calls of each kind.\<close>

definition counting_game :: "(call list, unit) Game" where
  "counting_game =
     \<lparr>update = (\<lambda>dt s g. g @ [Update dt s]),
      draw = (\<lambda>x g. (g @ [Draw], x)),
      should_redraw = None,
      reset = Some (\<lambda>g. g @ [Reset]),
      on_up_pressed = Some (\<lambda>g. g @ [OnUpPressed]),
      on_down_pressed = None, on_left_pressed = None, on_right_pressed = None,
      on_a_pressed = None, on_b_pressed = None\<rparr>"

text \<open>A clock difference for computing with the model: the plain difference, no wrap-around.\<close>

definition plain_ticks_diff :: "int \<Rightarrow> int \<Rightarrow> int" where
  "plain_ticks_diff t1 t0 = t1 - t0"

text \<open>The loop of a fresh engine after one press of up at 100 ms, released again, at 200 ms.\<close>

definition armed_state :: "(call list, unit) loop_state" where
  "armed_state =
     \<lparr>eng = (Engine_init ())\<lparr>last_up_press_time := Some 100\<rparr>,
      game_state = [], last_time = 200, first_frame = False\<rparr>"

section \<open>Driver lemmas\<close>

lemma lo_byte: "(x::int) AND 255 = x mod 256"
proof -
  have "x AND 255 = x AND mask 8" by (simp add: mask_eq_exp_minus_1)
  also have "\<dots> = take_bit 8 x" by (simp add: take_bit_eq_mask)
  also have "\<dots> = x mod 256" by (simp add: take_bit_eq_mod)
  finally show ?thesis .
qed

lemma hi_byte_mod: "((x::int) mod 65536) div 256 = (x div 256) mod 256"
  by (simp add: div_exp_mod_exp_eq [of x 8 8, simplified])

lemma hi_byte: "drop_bit 8 (x::int) AND 255 = (x mod 65536) div 256"
  by (simp add: lo_byte drop_bit_eq_div hi_byte_mod)

lemma masked_bytes_be16:
  "[drop_bit 8 u AND 255, u AND 255, drop_bit 8 v AND 255, v AND 255] = be16 u @ be16 v"
  by (simp add: be16_def lo_byte hi_byte [unfolded lo_byte])

lemma be16_decode: "be16 v = [hi, lo] \<Longrightarrow> 256 * hi + lo = v mod 65536"
proof -
  assume "be16 v = [hi, lo]"
  then have h: "hi = (v mod 65536) div 256" and l: "lo = v mod 256"
    by (simp_all add: be16_def)
  have "v mod 256 = (v mod 65536) mod 256"
    by (simp add: mod_mod_cancel)
  with h l show ?thesis by simp
qed

lemma be16_range: "b \<in> set (be16 v) \<Longrightarrow> 0 \<le> b \<and> b < 256"
proof -
  assume "b \<in> set (be16 v)"
  then consider "b = (v mod 65536) div 256" | "b = v mod 256"
    by (auto simp: be16_def)
  then show ?thesis
  proof cases
    case 1
    then show ?thesis by (simp add: hi_byte_mod)
  next
    case 2
    then show ?thesis by simp
  qed
qed

text \<open>The streaming loop sends exactly \<open>pixels\<close> repetitions of the two colour bytes.\<close>

lemma take_pairs:
  "n \<le> 64 \<Longrightarrow> take (2 * n) (concat (replicate 64 [hi, lo])) = concat (replicate n [hi, lo :: int])"
proof -
  assume "n \<le> 64"
  then obtain m where m: "64 = n + m" using le_Suc_ex by blast
  have "concat (replicate (n + m) [hi, lo]) = concat (replicate n [hi, lo]) @ concat (replicate m [hi, lo])"
    by (simp add: replicate_add)
  moreover have "length (concat (replicate n [hi, lo])) = 2 * n"
    by (induction n) simp_all
  ultimately show ?thesis using m by simp
qed

lemma stream_pixels_bytes:
  "spi_bytes (stream_pixels (concat (replicate 64 [hi, lo])) pixels)
     = concat (replicate (nat pixels) [hi, lo])"
proof (induction "concat (replicate 64 [hi, lo])" pixels rule: stream_pixels.induct)
  case (1 pixels)
  show ?case
  proof (cases "pixels > 0")
    case False
    then show ?thesis by (simp add: stream_pixels.simps)
  next
    case True
    define n where "n = (if pixels < 64 then pixels else 64)"
    have n: "0 < n" "n \<le> 64" "n \<le> pixels" using True by (auto simp: n_def)
    have ih: "spi_bytes (stream_pixels (concat (replicate 64 [hi, lo])) (pixels - n))
                = concat (replicate (nat (pixels - n)) [hi, lo])"
      using "1" [OF True n_def] .
    have tk: "take (nat (n * 2)) (concat (replicate 64 [hi, lo])) = concat (replicate (nat n) [hi, lo])"
    proof -
      have "nat (n * 2) = 2 * nat n" using n by (simp add: nat_mult_distrib)
      moreover have "nat n \<le> 64" using n by simp
      ultimately show ?thesis using take_pairs [of "nat n" hi lo] by simp
    qed
    have split: "nat pixels = nat n + nat (pixels - n)" using n by simp
    have "stream_pixels (concat (replicate 64 [hi, lo])) pixels
            = SPI (take (nat (n * 2)) (concat (replicate 64 [hi, lo])))
              # stream_pixels (concat (replicate 64 [hi, lo])) (pixels - n)"
      using True by (subst stream_pixels.simps) (simp add: n_def Let_def)
    then show ?thesis
      by (simp add: ih tk split replicate_add)
  qed
qed

lemma stream_pixels_only_spi:
  "e \<in> set (stream_pixels chunk pixels) \<Longrightarrow> \<exists>bs. e = SPI bs"
proof (induction chunk pixels rule: stream_pixels.induct)
  case (1 chunk pixels)
  show ?case
  proof (cases "pixels > 0")
    case False
    with "1.prems" show ?thesis by (simp add: stream_pixels.simps)
  next
    case True
    define n where "n = (if pixels < 64 then pixels else 64)"
    from "1.prems" True have "e = SPI (take (nat (n * 2)) chunk) \<or> e \<in> set (stream_pixels chunk (pixels - n))"
      by (subst (asm) stream_pixels.simps) (simp add: n_def Let_def)
    then show ?thesis using "1.IH" [OF True n_def] by blast
  qed
qed

lemma only_spi_chunks:
  "\<forall>e \<in> set es. \<exists>bs. e = SPI bs \<Longrightarrow> \<exists>chunks. es = map SPI chunks \<and> concat chunks = spi_bytes es"
proof (induction es)
  case Nil
  then show ?case by simp
next
  case (Cons e es)
  from Cons.prems obtain bs where e: "e = SPI bs" by auto
  from Cons obtain chunks where "es = map SPI chunks" "concat chunks = spi_bytes es" by auto
  with e have "e # es = map SPI (bs # chunks) \<and> concat (bs # chunks) = spi_bytes (e # es)" by simp
  then show ?case by (rule exI)
qed

lemma set_window_nonempty: "set_window x0 y0 x1 y1 \<noteq> []"
  by (simp add: set_window_def write_cmd_def)

section \<open>The addressing window (C7)\<close>

text \<open>
  Claim C7. For every \<open>(x0, y0, x1, y1)\<close>, setting the write window emits the
  column-address-set command \<open>0x2A\<close>, the two x bounds as 16-bit big-endian data, the
  row-address-set command \<open>0x2B\<close>, the two y bounds as 16-bit big-endian data, and then
  the write-to-RAM command \<open>0x2C\<close>; the read variant emits the same addressing bytes and
  the read-from-RAM command \<open>0x2E\<close> in place of the last one. Commands go out with the
  data/command line low, data with it high, each inside its own chip-select pulse.
\<close>

theorem set_window_wire_format:
  "set_window x0 y0 x1 y1 =
     [DC False, CS False, SPI [0x2A], CS True,
      DC True, CS False, SPI (be16 x0 @ be16 x1), CS True,
      DC False, CS False, SPI [0x2B], CS True,
      DC True, CS False, SPI (be16 y0 @ be16 y1), CS True,
      DC False, CS False, SPI [0x2C], CS True]
   \<and> set_window_for_read x0 y0 x1 y1 =
     [DC False, CS False, SPI [0x2A], CS True,
      DC True, CS False, SPI (be16 x0 @ be16 x1), CS True,
      DC False, CS False, SPI [0x2B], CS True,
      DC True, CS False, SPI (be16 y0 @ be16 y1), CS True,
      DC False, CS False, SPI [0x2E], CS True]"
  by (simp add: set_window_def set_window_for_read_def write_cmd_def write_data_def
        masked_bytes_be16 [simplified])

section \<open>Text size (C8)\<close>

text \<open>
  Claim C8. For every text and every scale, \<open>get_text_size\<close> returns
  \<open>(8 * len(text) * scale, 8 * scale)\<close> with a scale below 1 replaced by 1; for
  \<open>"HIT"\<close> at scale 2 that is \<open>(48, 16)\<close>.
\<close>

theorem get_text_size_value:
  "get_text_size text scale = (8 * int (length text) * max 1 scale, 8 * max 1 scale)
   \<and> get_text_size ''HIT'' 2 = (48, 16)"
  by (simp add: get_text_size_def max_def)

section \<open>The unclipped rectangle fill (C5)\<close>

text \<open>
  Claim C5. The driver's \<open>fill_rect\<close> produces no bus traffic at all exactly when
  \<open>w \<le> 0\<close>, \<open>h \<le> 0\<close> or the rectangle \<open>(x, y, x + w - 1, y + h - 1)\<close> is not fully
  within the surface. Otherwise it sets the window to exactly that rectangle and then,
  with the data line high and inside one chip-select pulse, writes chunks whose
  concatenation is \<open>w * h\<close> repetitions of the two big-endian colour bytes.
\<close>

theorem fill_rect_unclipped:
  "(tft_fill_rect d x y w h colour = []
      \<longleftrightarrow> w \<le> 0 \<or> h \<le> 0 \<or> \<not> within_surface d x y (x + w - 1) (y + h - 1))
   \<and> (\<not> (w \<le> 0 \<or> h \<le> 0 \<or> \<not> within_surface d x y (x + w - 1) (y + h - 1)) \<longrightarrow>
        (\<exists>chunks. tft_fill_rect d x y w h colour
                    = set_window x y (x + w - 1) (y + h - 1)
                      @ [DC True, CS False] @ map SPI chunks @ [CS True]
                 \<and> concat chunks = concat (replicate (nat (w * h)) (be16 colour))))"
proof (cases "w \<le> 0 \<or> h \<le> 0")
  case True
  then show ?thesis by (auto simp: tft_fill_rect_def)
next
  case pos: False
  show ?thesis
  proof (cases "x < 0 \<or> y < 0 \<or> x + w - 1 \<ge> width d \<or> y + h - 1 \<ge> height d")
    case True
    with pos have "\<not> within_surface d x y (x + w - 1) (y + h - 1)"
      by (auto simp: within_surface_def)
    with pos True show ?thesis by (auto simp: tft_fill_rect_def Let_def)
  next
    case False
    with pos have ws: "within_surface d x y (x + w - 1) (y + h - 1)"
      by (auto simp: within_surface_def)
    define hi where "hi = drop_bit 8 colour AND 255"
    define lo where "lo = colour AND 255"
    have hl: "[hi, lo] = be16 colour"
      by (simp add: hi_def lo_def be16_def lo_byte hi_byte [unfolded lo_byte])
    have eq: "tft_fill_rect d x y w h colour
                = set_window x y (x + w - 1) (y + h - 1)
                  @ [DC True, CS False] @ stream_pixels (concat (replicate 64 [hi, lo])) (w * h) @ [CS True]"
      using pos False by (simp add: tft_fill_rect_def Let_def hi_def lo_def)
    obtain chunks where ch: "stream_pixels (concat (replicate 64 [hi, lo])) (w * h) = map SPI chunks"
        "concat chunks = spi_bytes (stream_pixels (concat (replicate 64 [hi, lo])) (w * h))"
    proof -
      have "\<forall>e \<in> set (stream_pixels (concat (replicate 64 [hi, lo])) (w * h)). \<exists>bs. e = SPI bs"
        using stream_pixels_only_spi by blast
      from only_spi_chunks [OF this] show ?thesis using that by blast
    qed
    have "concat chunks = concat (replicate (nat (w * h)) (be16 colour))"
      using ch(2) stream_pixels_bytes [of hi lo "w * h"] by (simp only: hl)
    with eq ch(1) ws pos show ?thesis
      using set_window_nonempty by auto
  qed
qed

theorem fill_rect_unclipped_witness:
  "tft_fill_rect ILI9341_init 10 20 3 2 0xF800 \<noteq> []
   \<and> (\<exists>chunks. tft_fill_rect ILI9341_init 10 20 3 2 0xF800
                 = set_window 10 20 12 21 @ [DC True, CS False] @ map SPI chunks @ [CS True]
              \<and> concat chunks = concat (replicate 6 (be16 0xF800)))"
  using fill_rect_unclipped [of ILI9341_init 10 20 3 2 "0xF800"]
  by (simp add: within_surface_def ILI9341_init_def)

lemma fill_rect_in_bounds:
  assumes "0 < w" "0 < h" "0 \<le> x" "0 \<le> y" "x + w \<le> width d" "y + h \<le> height d"
  shows "tft_fill_rect d x y w h colour
           = set_window x y (x + w - 1) (y + h - 1) @ [DC True, CS False]
             @ stream_pixels (concat (replicate 64 [drop_bit 8 colour AND 255, colour AND 255])) (w * h)
             @ [CS True]"
  using assms by (simp add: tft_fill_rect_def Let_def)

section \<open>The clipped rectangle fill (C3)\<close>

text \<open>
  Claim C3. For every rectangle \<open>(x, y, w, h)\<close>, \<open>safe_fill_rect\<close> either draws nothing,
  which happens exactly when the rectangle does not meet the surface, or hands the driver's
  \<open>fill_rect\<close> exactly the intersection of the rectangle with
  \<open>[0,width) \<times> [0,height)\<close>; the window it then sets lies within the surface. On the
  240 by 320 display, \<open>safe_fill_rect(-5, 0, 10, 10)\<close> draws the rectangle
  \<open>(0, 0, 5, 10)\<close>. The graphics object takes its size from its driver, as the
  constructor arranges.
\<close>

theorem safe_fill_rect_clipped:
  assumes "gfx_width g = width (tft g)" and "gfx_height g = height (tft g)"
  shows "(safe_fill_rect g x y w h colour = []
            \<longleftrightarrow> {x..<x + w} \<inter> {0..<gfx_width g} = {} \<or> {y..<y + h} \<inter> {0..<gfx_height g} = {})
         \<and> (safe_fill_rect g x y w h colour = [] \<or>
             (\<exists>x0 y0 cw ch.
                {x0..<x0 + cw} = {x..<x + w} \<inter> {0..<gfx_width g}
              \<and> {y0..<y0 + ch} = {y..<y + h} \<inter> {0..<gfx_height g}
              \<and> 0 < cw \<and> 0 < ch
              \<and> within_surface (tft g) x0 y0 (x0 + cw - 1) (y0 + ch - 1)
              \<and> safe_fill_rect g x y w h colour = tft_fill_rect (tft g) x0 y0 cw ch colour
              \<and> (\<exists>rest. safe_fill_rect g x y w h colour
                           = set_window x0 y0 (x0 + cw - 1) (y0 + ch - 1) @ rest)))
         \<and> safe_fill_rect PicoGFX_init (-5) 0 10 10 colour
             = tft_fill_rect (tft PicoGFX_init) 0 0 5 10 colour"
proof -
  define x0 where "x0 = max 0 x"
  define y0 where "y0 = max 0 y"
  define cw where "cw = min (gfx_width g) (x + w) - x0"
  define ch where "ch = min (gfx_height g) (y + h) - y0"
  have scen: "safe_fill_rect PicoGFX_init (-5) 0 10 10 colour
             = tft_fill_rect (tft PicoGFX_init) 0 0 5 10 colour"
    by (simp add: safe_fill_rect_def gfx_fill_rect_def PicoGFX_init_def ILI9341_init_def Let_def)
  show ?thesis
  proof (cases "w \<le> 0 \<or> h \<le> 0 \<or> cw \<le> 0 \<or> ch \<le> 0")
    case True
    then have e: "safe_fill_rect g x y w h colour = []"
      by (auto simp: safe_fill_rect_def Let_def x0_def y0_def cw_def ch_def)
    from True have "{x..<x + w} \<inter> {0..<gfx_width g} = {} \<or> {y..<y + h} \<inter> {0..<gfx_height g} = {}"
      by (auto simp: x0_def y0_def cw_def ch_def)
    with e scen show ?thesis by simp
  next
    case False
    then have pos: "0 < w" "0 < h" "0 < cw" "0 < ch" by auto
    have sx: "{x0..<x0 + cw} = {x..<x + w} \<inter> {0..<gfx_width g}"
      by (auto simp: x0_def cw_def)
    have sy: "{y0..<y0 + ch} = {y..<y + h} \<inter> {0..<gfx_height g}"
      by (auto simp: y0_def ch_def)
    have b: "0 \<le> x0" "0 \<le> y0" "x0 + cw \<le> width (tft g)" "y0 + ch \<le> height (tft g)"
      using assms by (auto simp: x0_def y0_def cw_def ch_def)
    have ws: "within_surface (tft g) x0 y0 (x0 + cw - 1) (y0 + ch - 1)"
      using b pos by (auto simp: within_surface_def)
    have d: "safe_fill_rect g x y w h colour = tft_fill_rect (tft g) x0 y0 cw ch colour"
      using False by (simp add: safe_fill_rect_def gfx_fill_rect_def Let_def x0_def y0_def cw_def ch_def)
    have r: "\<exists>rest. safe_fill_rect g x y w h colour = set_window x0 y0 (x0 + cw - 1) (y0 + ch - 1) @ rest"
      unfolding d fill_rect_in_bounds [OF pos(3,4) b] by blast
    then have ne: "safe_fill_rect g x y w h colour \<noteq> []"
      using set_window_nonempty by auto
    have nonempty: "\<not> ({x..<x + w} \<inter> {0..<gfx_width g} = {} \<or> {y..<y + h} \<inter> {0..<gfx_height g} = {})"
      using pos unfolding sx [symmetric] sy [symmetric] by simp
    from sx sy pos ws d r have
      "\<exists>x0 y0 cw ch.
                {x0..<x0 + cw} = {x..<x + w} \<inter> {0..<gfx_width g}
              \<and> {y0..<y0 + ch} = {y..<y + h} \<inter> {0..<gfx_height g}
              \<and> 0 < cw \<and> 0 < ch
              \<and> within_surface (tft g) x0 y0 (x0 + cw - 1) (y0 + ch - 1)
              \<and> safe_fill_rect g x y w h colour = tft_fill_rect (tft g) x0 y0 cw ch colour
              \<and> (\<exists>rest. safe_fill_rect g x y w h colour
                           = set_window x0 y0 (x0 + cw - 1) (y0 + ch - 1) @ rest)"
      by blast
    with ne nonempty scen show ?thesis by simp
  qed
qed

theorem safe_fill_rect_clipped_witness:
  "safe_fill_rect PicoGFX_init 230 (-4) 20 10 0x07E0 \<noteq> []
   \<and> safe_fill_rect PicoGFX_init 230 (-4) 20 10 0x07E0
       = tft_fill_rect (tft PicoGFX_init) 230 0 10 6 0x07E0
   \<and> safe_fill_rect PicoGFX_init 240 0 5 5 0x07E0 = []"
  using safe_fill_rect_clipped [of PicoGFX_init 230 "-4" 20 10 "0x07E0"]
        safe_fill_rect_clipped [of PicoGFX_init 240 0 5 5 "0x07E0"]
  by (simp add: PicoGFX_init_def ILI9341_init_def safe_fill_rect_def gfx_fill_rect_def)

section \<open>Lemmas on the text buffers\<close>

text \<open>
  The nested scaling loops write every destination pixel exactly once; a write to one
  pixel leaves all others alone, so the value found at the end is the value written.
\<close>

lemma scale_pixel_length [simp]:
  "length (scale_pixel s bw W small sy sx out) = length out"
  by (simp add: scale_pixel_def Let_def)

lemma scale_pixel_other:
  "j \<noteq> 2 * (sy * W + sx) \<Longrightarrow> j \<noteq> 2 * (sy * W + sx) + 1
     \<Longrightarrow> scale_pixel s bw W small sy sx out ! j = out ! j"
  by (simp add: scale_pixel_def Let_def)

lemma scale_pixel_written:
  "2 * (sy * W + sx) + 1 < length out \<Longrightarrow>
     scale_pixel s bw W small sy sx out ! (2 * (sy * W + sx)) = small ! (2 * (sy div s * bw + sx div s))
   \<and> scale_pixel s bw W small sy sx out ! (2 * (sy * W + sx) + 1) = small ! (2 * (sy div s * bw + sx div s) + 1)"
  by (simp add: scale_pixel_def Let_def)

lemma row_length [simp]:
  "length (fold (scale_pixel s bw W small sy) xs out) = length out"
  by (induction xs arbitrary: out) simp_all

lemma row_other:
  "\<forall>sx \<in> set xs. j \<noteq> 2 * (sy * W + sx) \<and> j \<noteq> 2 * (sy * W + sx) + 1
     \<Longrightarrow> fold (scale_pixel s bw W small sy) xs out ! j = out ! j"
  by (induction xs arbitrary: out) (simp_all add: scale_pixel_other)

lemma row_written:
  assumes "distinct xs" "sx \<in> set xs" "2 * (sy * W + sx) + 1 < length out"
  shows "fold (scale_pixel s bw W small sy) xs out ! (2 * (sy * W + sx)) = small ! (2 * (sy div s * bw + sx div s))
       \<and> fold (scale_pixel s bw W small sy) xs out ! (2 * (sy * W + sx) + 1) = small ! (2 * (sy div s * bw + sx div s) + 1)"
  using assms
proof (induction xs arbitrary: out)
  case Nil
  then show ?case by simp
next
  case (Cons a xs)
  show ?case
  proof (cases "a = sx")
    case True
    with Cons.prems have "sx \<notin> set xs" by simp
    then have un: "\<forall>t \<in> set xs. 2 * (sy * W + sx) \<noteq> 2 * (sy * W + t) \<and> 2 * (sy * W + sx) \<noteq> 2 * (sy * W + t) + 1"
      and un1: "\<forall>t \<in> set xs. 2 * (sy * W + sx) + 1 \<noteq> 2 * (sy * W + t) \<and> 2 * (sy * W + sx) + 1 \<noteq> 2 * (sy * W + t) + 1"
      by (auto, presburger+)
    have e: "fold (scale_pixel s bw W small sy) (a # xs) out
               = fold (scale_pixel s bw W small sy) xs (scale_pixel s bw W small sy sx out)"
      using True by simp
    show ?thesis
      unfolding e row_other [OF un] row_other [OF un1]
      by (rule scale_pixel_written [OF Cons.prems(3)])
  next
    case False
    with Cons.prems have "distinct xs" "sx \<in> set xs" by auto
    moreover have "2 * (sy * W + sx) + 1 < length (scale_pixel s bw W small sy a out)"
      using Cons.prems(3) by simp
    ultimately show ?thesis using Cons.IH by simp
  qed
qed

lemma pixel_index_inj:
  "sx < W \<Longrightarrow> sx' < W \<Longrightarrow> sy * W + sx = sy' * W + sx' \<Longrightarrow> sy = sy' \<and> sx = (sx' :: nat)"
proof -
  assume a: "sx < W" "sx' < W" "sy * W + sx = sy' * W + sx'"
  then have "W \<noteq> 0" by auto
  then have "(sy * W + sx) div W = sy + sx div W" "(sy' * W + sx') div W = sy' + sx' div W"
    by (rule div_mult_self3)+
  with a have "sy = sy'" by simp
  with a show ?thesis by simp
qed

lemma rows_length [simp]:
  "length (fold (\<lambda>sy. fold (scale_pixel s bw W small sy) xs) ys out) = length out"
  by (induction ys arbitrary: out) simp_all

lemma rows_other:
  "\<forall>sy \<in> set ys. \<forall>sx \<in> set xs. j \<noteq> 2 * (sy * W + sx) \<and> j \<noteq> 2 * (sy * W + sx) + 1
     \<Longrightarrow> fold (\<lambda>sy. fold (scale_pixel s bw W small sy) xs) ys out ! j = out ! j"
  by (induction ys arbitrary: out) (simp_all add: row_other)

lemma rows_written:
  assumes "distinct ys" "sy \<in> set ys" "sx < W" "2 * (sy * W + sx) + 1 < length out"
  shows "fold (\<lambda>sy. fold (scale_pixel s bw W small sy) [0..<W]) ys out ! (2 * (sy * W + sx))
           = small ! (2 * (sy div s * bw + sx div s))
       \<and> fold (\<lambda>sy. fold (scale_pixel s bw W small sy) [0..<W]) ys out ! (2 * (sy * W + sx) + 1)
           = small ! (2 * (sy div s * bw + sx div s) + 1)"
  using assms
proof (induction ys arbitrary: out)
  case Nil
  then show ?case by simp
next
  case (Cons a ys)
  show ?case
  proof (cases "a = sy")
    case True
    with Cons.prems have notin: "sy \<notin> set ys" by simp
    have un: "\<forall>r \<in> set ys. \<forall>t \<in> set [0..<W].
                 2 * (sy * W + sx) \<noteq> 2 * (r * W + t) \<and> 2 * (sy * W + sx) \<noteq> 2 * (r * W + t) + 1"
    proof (intro ballI conjI)
      fix r t assume "r \<in> set ys" "t \<in> set [0..<W]"
      then have "r \<noteq> sy" "t < W" using notin by auto
      then have "sy * W + sx \<noteq> r * W + t"
        using pixel_index_inj [OF \<open>sx < W\<close>, of t sy r] by auto
      then show "2 * (sy * W + sx) \<noteq> 2 * (r * W + t)" by simp
      show "2 * (sy * W + sx) \<noteq> 2 * (r * W + t) + 1" by presburger
    qed
    have un1: "\<forall>r \<in> set ys. \<forall>t \<in> set [0..<W].
                 2 * (sy * W + sx) + 1 \<noteq> 2 * (r * W + t) \<and> 2 * (sy * W + sx) + 1 \<noteq> 2 * (r * W + t) + 1"
    proof (intro ballI conjI)
      fix r t assume "r \<in> set ys" "t \<in> set [0..<W]"
      then have "r \<noteq> sy" "t < W" using notin by auto
      then have "sy * W + sx \<noteq> r * W + t"
        using pixel_index_inj [OF \<open>sx < W\<close>, of t sy r] by auto
      then show "2 * (sy * W + sx) + 1 \<noteq> 2 * (r * W + t) + 1" by simp
      show "2 * (sy * W + sx) + 1 \<noteq> 2 * (r * W + t)" by presburger
    qed
    have "sx \<in> set [0..<W]" using \<open>sx < W\<close> by simp
    have e: "fold (\<lambda>sy. fold (scale_pixel s bw W small sy) [0..<W]) (a # ys) out
               = fold (\<lambda>sy. fold (scale_pixel s bw W small sy) [0..<W]) ys
                   (fold (scale_pixel s bw W small sy) [0..<W] out)"
      using True by simp
    show ?thesis
      unfolding e rows_other [OF un] rows_other [OF un1]
      by (rule row_written [OF _ \<open>sx \<in> set [0..<W]\<close> Cons.prems(4)]) simp
  next
    case False
    with Cons.prems have "distinct ys" "sy \<in> set ys" by auto
    moreover have "2 * (sy * W + sx) + 1 < length (fold (scale_pixel s bw W small a) [0..<W] out)"
      using Cons.prems(4) by simp
    ultimately show ?thesis using Cons.IH [OF _ _ \<open>sx < W\<close>] by simp
  qed
qed

lemma scale_buffer_length:
  "length (scale_buffer s bw W H small out) = length out"
  by (simp add: scale_buffer_def)

lemma scale_buffer_pixel:
  assumes "dx < W" "dy < H" "length out = 2 * (W * H)"
  shows "pixel_at (scale_buffer s bw W H small out) W dx dy = pixel_at small bw (dx div s) (dy div s)"
proof -
  have "dy * W + dx < W * H"
  proof -
    have "dy * W + dx < dy * W + W" using assms(1) by simp
    also have "\<dots> = (dy + 1) * W" by simp
    also have "\<dots> \<le> H * W" using assms(2) by (intro mult_le_mono1) simp
    finally show ?thesis by (simp add: mult.commute)
  qed
  then have idx: "2 * (dy * W + dx) + 1 < length out" using assms(3) by simp
  have "dy \<in> set [0..<H]" using assms(2) by simp
  from rows_written [OF _ this assms(1) idx, of s bw small]
  show ?thesis by (simp add: pixel_at_def scale_buffer_def)
qed

text \<open>The 1x buffer: the background pairs, overlaid with what the glyph writer stores.\<close>

lemma fill_bg_replicate:
  "fill_bg hi lo (replicate (2 * n) z) = concat (replicate n [hi, lo])"
  by (induction n) simp_all

lemma fill_bg_128:
  "fill_bg hi lo (replicate (128 * n) z) = concat (replicate (64 * n) [hi, lo])"
  using fill_bg_replicate [of hi lo "64 * n" z] by simp

lemma fb_text_length [simp]: "length (fb_text glyphs text colour buf) = length buf"
  by (simp add: fb_text_def)

lemma fb_text_nth:
  "i < length buf \<Longrightarrow>
     fb_text glyphs text colour buf ! i = (case glyphs text colour i of Some b \<Rightarrow> b | None \<Rightarrow> buf ! i)"
  by (simp add: fb_text_def split: option.split)

lemma length_pairs [simp]: "length (concat (replicate n [hi, lo])) = 2 * n"
  by (induction n) simp_all

lemma nth_pairs:
  "i < 2 * n \<Longrightarrow> concat (replicate n [hi, lo]) ! i = (if even i then hi else lo)"
proof (induction n arbitrary: i)
  case 0
  then show ?case by simp
next
  case (Suc n)
  show ?case
  proof (cases "i < 2")
    case True
    then have "i = 0 \<or> i = 1" by auto
    then show ?thesis by auto
  next
    case False
    then obtain k where k: "i = Suc (Suc k)" by (metis less_2_cases_iff not0_implies_Suc numeral_2_eq_2 zero_less_Suc)
    with Suc.prems have "k < 2 * n" by simp
    with Suc.IH [of k] k show ?thesis by simp
  qed
qed

lemma small_text_buf_eq:
  "small_text_buf glyphs text colour bg =
     fb_text glyphs text colour
       (concat (replicate (64 * length text)
          (case bg of None \<Rightarrow> [0, 0] | Some b \<Rightarrow> be16 b)))"
proof -
  show ?thesis
    by (cases bg)
       (simp_all add: small_text_buf_def Let_def nat_mult_distrib fill_bg_128 be16_def lo_byte
          hi_byte [unfolded lo_byte])
qed

lemma small_text_buf_length [simp]:
  "length (small_text_buf glyphs text colour bg) = 128 * length text"
  by (cases bg) (simp_all add: small_text_buf_eq be16_def)

lemma tft_text_eq:
  "text \<noteq> [] \<Longrightarrow>
     tft_text glyphs x y text colour 0 =
       blit_rgb565 x y (8 * int (length text)) 8 (small_text_buf glyphs text colour None)"
proof -
  have n: "nat (128 * int (length text)) = 2 * (64 * length text)"
    by (simp add: nat_mult_distrib)
  assume "text \<noteq> []"
  then show ?thesis
    by (simp add: tft_text_def small_text_buf_def Let_def)
qed

lemma render_scale_one:
  "scale \<le> 1 \<Longrightarrow> render_text_sprite glyphs text colour bg scale =
     \<lparr>spr_w = 8 * int (length text), spr_h = 8,
      spr_data = small_text_buf glyphs text colour bg, spr_path = None\<rparr>"
  by (auto simp: render_text_sprite_def Let_def)

lemma render_scaled:
  assumes "1 < scale"
  shows "render_text_sprite glyphs text colour bg scale =
     \<lparr>spr_w = 8 * int (length text) * scale, spr_h = 8 * scale,
      spr_data = scale_buffer (nat scale) (8 * length text) (8 * length text * nat scale)
                   (8 * nat scale) (small_text_buf glyphs text colour bg)
                   (replicate (2 * ((8 * length text * nat scale) * (8 * nat scale))) 0),
      spr_path = None\<rparr>"
proof -
  obtain s where s: "scale = int s" "1 < s"
    using assms by (metis nat_eq_iff2 nat_less_iff less_imp_le zero_less_one order_less_trans int_ops(2))
  show ?thesis
    using s(2) by (simp add: render_text_sprite_def Let_def s(1) nat_mult_distrib)
qed

lemma render_dims:
  "spr_w (render_text_sprite glyphs text colour bg scale) = fst (get_text_size text scale)
 \<and> spr_h (render_text_sprite glyphs text colour bg scale) = snd (get_text_size text scale)
 \<and> int (length (spr_data (render_text_sprite glyphs text colour bg scale)))
     = 2 * fst (get_text_size text scale) * snd (get_text_size text scale)"
proof (cases "1 < scale")
  case True
  then have "int (nat scale) = scale" by simp
  then have "int (2 * ((8 * length text * nat scale) * (8 * nat scale)))
               = 2 * (8 * int (length text) * scale) * (8 * scale)"
    by (simp add: algebra_simps)
  with True show ?thesis
    by (simp only: render_scaled [OF True] scale_buffer_length length_replicate
          get_text_size_def Let_def sprite.simps fst_conv snd_conv) simp
next
  case False
  then have "scale \<le> 1" by simp
  from render_scale_one [OF this] show ?thesis
    using False by (auto simp: get_text_size_def Let_def)
qed

section \<open>Nearest-neighbour scaling of text sprites (C4)\<close>

text \<open>
  Claim C4. For every text, colours and scale \<open>s > 1\<close>, the sprite that
  \<open>_render_text_sprite\<close> returns is \<open>8 * len(text) * s\<close> wide and \<open>8 * s\<close> high, and its
  pixel \<open>(dx, dy)\<close> is the pixel \<open>(dx div s, dy div s)\<close> of the 1x glyph buffer, for all
  \<open>dx < 8 * len(text) * s\<close> and \<open>dy < 8 * s\<close>. At scale 1 (and below, which is clamped
  to 1) the sprite is the 1x buffer itself.
\<close>

theorem render_text_sprite_nearest_neighbour:
  "(1 < scale \<longrightarrow>
      spr_w (render_text_sprite glyphs text colour bg scale) = 8 * int (length text) * scale
    \<and> spr_h (render_text_sprite glyphs text colour bg scale) = 8 * scale
    \<and> length (spr_data (render_text_sprite glyphs text colour bg scale))
        = 2 * ((8 * length text * nat scale) * (8 * nat scale))
    \<and> (\<forall>dx dy. dx < 8 * length text * nat scale \<longrightarrow> dy < 8 * nat scale \<longrightarrow>
          pixel_at (spr_data (render_text_sprite glyphs text colour bg scale))
                   (8 * length text * nat scale) dx dy
            = pixel_at (small_text_buf glyphs text colour bg)
                       (8 * length text) (dx div nat scale) (dy div nat scale)))
   \<and> (scale \<le> 1 \<longrightarrow>
        render_text_sprite glyphs text colour bg scale =
          \<lparr>spr_w = 8 * int (length text), spr_h = 8,
           spr_data = small_text_buf glyphs text colour bg, spr_path = None\<rparr>)"
proof (intro conjI impI allI)
  assume "scale \<le> 1"
  then show "render_text_sprite glyphs text colour bg scale =
          \<lparr>spr_w = 8 * int (length text), spr_h = 8,
           spr_data = small_text_buf glyphs text colour bg, spr_path = None\<rparr>"
    by (rule render_scale_one)
next
  assume "1 < scale"
  then show "spr_w (render_text_sprite glyphs text colour bg scale) = 8 * int (length text) * scale"
    by (simp add: render_scaled)
next
  assume "1 < scale"
  then show "spr_h (render_text_sprite glyphs text colour bg scale) = 8 * scale"
    by (simp add: render_scaled)
next
  assume "1 < scale"
  then show "length (spr_data (render_text_sprite glyphs text colour bg scale))
        = 2 * ((8 * length text * nat scale) * (8 * nat scale))"
    by (simp only: render_scaled sprite.simps scale_buffer_length length_replicate)
next
  fix dx dy
  assume s: "1 < scale" and dx: "dx < 8 * length text * nat scale" and dy: "dy < 8 * nat scale"
  show "pixel_at (spr_data (render_text_sprite glyphs text colour bg scale))
                   (8 * length text * nat scale) dx dy
            = pixel_at (small_text_buf glyphs text colour bg)
                       (8 * length text) (dx div nat scale) (dy div nat scale)"
    unfolding render_scaled [OF s] sprite.simps
    by (rule scale_buffer_pixel [OF dx dy]) simp
qed

theorem render_text_sprite_nearest_neighbour_witness:
  "pixel_at (spr_data (render_text_sprite stripe_glyphs ''HIT'' 0xF800 (Some 0x001F) 3))
            72 13 7
     = pixel_at (small_text_buf stripe_glyphs ''HIT'' 0xF800 (Some 0x001F)) 24 4 2
   \<and> spr_w (render_text_sprite stripe_glyphs ''HIT'' 0xF800 (Some 0x001F) 3) = 72
   \<and> spr_data (render_text_sprite stripe_glyphs ''HIT'' 0xF800 (Some 0x001F) 1)
       = small_text_buf stripe_glyphs ''HIT'' 0xF800 (Some 0x001F)"
proof -
  let ?G = stripe_glyphs
  note a = render_text_sprite_nearest_neighbour [of 3 ?G "''HIT''" "0xF800" "Some 0x001F"]
  note b = render_text_sprite_nearest_neighbour [of 1 ?G "''HIT''" "0xF800" "Some 0x001F"]
  from a have px: "\<forall>dx dy. dx < 72 \<longrightarrow> dy < 24 \<longrightarrow>
        pixel_at (spr_data (render_text_sprite ?G ''HIT'' 0xF800 (Some 0x001F) 3)) 72 dx dy
          = pixel_at (small_text_buf ?G ''HIT'' 0xF800 (Some 0x001F)) 24 (dx div 3) (dy div 3)"
    and w: "spr_w (render_text_sprite ?G ''HIT'' 0xF800 (Some 0x001F) 3) = 72"
    by simp_all
  from px have "pixel_at (spr_data (render_text_sprite ?G ''HIT'' 0xF800 (Some 0x001F) 3)) 72 13 7
          = pixel_at (small_text_buf ?G ''HIT'' 0xF800 (Some 0x001F)) 24 (13 div 3) (7 div 3)"
    by (intro px [rule_format]) simp_all
  moreover from b have "spr_data (render_text_sprite ?G ''HIT'' 0xF800 (Some 0x001F) 1)
       = small_text_buf ?G ''HIT'' 0xF800 (Some 0x001F)"
    by simp
  ultimately show ?thesis using w by simp
qed

lemma length_set_window [simp]: "length (set_window x0 y0 x1 y1) = 20"
  by (simp add: set_window_def write_cmd_def write_data_def)

lemma draw_text_fast:
  assumes "text \<noteq> []" "scale \<le> 1"
  shows "draw_text glyphs g x y text colour None scale =
           (g, blit_rgb565 (fst (clamp_text_pos g x y (8 * int (length text)) 8))
                           (snd (clamp_text_pos g x y (8 * int (length text)) 8))
                           (8 * int (length text)) 8 (small_text_buf glyphs text colour None))"
  using assms
  by (auto simp: draw_text_def get_text_size_def Let_def tft_text_eq split: prod.splits)

lemma draw_text_sprite_path:
  assumes "text \<noteq> []" "1 < scale \<or> bg \<noteq> None"
  shows "snd (draw_text glyphs g x y text colour bg scale) =
           draw_sprite (fst (get_text_sprite glyphs g text colour bg (max 1 scale)))
             (fst (clamp_text_pos g x y (fst (get_text_size text scale)) (snd (get_text_size text scale))))
             (snd (clamp_text_pos g x y (fst (get_text_size text scale)) (snd (get_text_size text scale))))"
  using assms
  by (auto simp: draw_text_def Let_def max_def get_text_size_def split: prod.splits)

lemma clamp_text_pos_bounds:
  assumes "w \<le> gfx_width g" "h \<le> gfx_height g" "clamp_text_pos g x y w h = (x', y')"
  shows "0 \<le> x' \<and> x' + w \<le> gfx_width g \<and> 0 \<le> y' \<and> y' + h \<le> gfx_height g"
  using assms by (auto simp: clamp_text_pos_def Let_def split: if_splits)

section \<open>Clamping of the text position (C6)\<close>

text \<open>
  Claim C6 says that \<open>draw_text\<close> moves every non-empty text so that its whole box lies
  on the surface. That cannot hold for a text whose box is larger than the surface: 31
  characters at scale 1 are 248 pixels wide, and on the 240 pixels of the display the
  clamp \<open>x = width - w\<close> gives the origin \<open>x = -8\<close>, which is the window the driver is
  then asked to set.
\<close>

theorem draw_text_clamp_counterexample:
  "clamp_text_pos PicoGFX_init 0 0
     (fst (get_text_size (replicate 31 CHR ''W'') 1)) (snd (get_text_size (replicate 31 CHR ''W'') 1))
     = (-8, 0)
   \<and> take 20 (snd (draw_text blank_glyphs PicoGFX_init 0 0 (replicate 31 CHR ''W'') 0xFFFF None 1))
       = set_window (-8) 0 239 7"
proof -
  have ne: "replicate 31 CHR ''W'' \<noteq> []" by simp
  have c: "clamp_text_pos PicoGFX_init 0 0 248 8 = (-8, 0)"
    by (simp add: clamp_text_pos_def PicoGFX_init_def ILI9341_init_def)
  show ?thesis
    by (simp add: draw_text_fast [OF ne] get_text_size_def c blit_rgb565_def)
qed

text \<open>
  Claim C6, amended. For every non-empty text, position and scale such that the box
  \<open>(w, h) = get_text_size(text, scale)\<close> fits the surface (\<open>w \<le> width\<close> and
  \<open>h \<le> height\<close>), the origin \<open>(x', y')\<close> at which \<open>draw_text\<close> draws satisfies
  \<open>0 \<le> x'\<close>, \<open>x' + w \<le> width\<close>, \<open>0 \<le> y'\<close> and \<open>y' + h \<le> height\<close>. The window set on
  the display starts at that origin, and on the direct path and on a cache miss it is the
  whole box, filled with all \<open>2 * w * h\<close> bytes: the text is moved, no glyph is left out.
\<close>

theorem draw_text_clamps:
  assumes "text \<noteq> []"
      and "get_text_size text scale = (w, h)"
      and "w \<le> gfx_width g" and "h \<le> gfx_height g"
      and "clamp_text_pos g x y w h = (x', y')"
  shows "0 \<le> x' \<and> x' + w \<le> gfx_width g \<and> 0 \<le> y' \<and> y' + h \<le> gfx_height g
       \<and> (\<exists>x1 y1 data. snd (draw_text glyphs g x y text colour bg scale)
                          = set_window x' y' x1 y1 @ write_data data)
       \<and> (text_cache g (text, colour, bg, max 1 scale) = None \<or> (scale \<le> 1 \<and> bg = None) \<longrightarrow>
            (\<exists>data. int (length data) = 2 * w * h
                  \<and> snd (draw_text glyphs g x y text colour bg scale)
                      = set_window x' y' (x' + w - 1) (y' + h - 1) @ write_data data))"
proof -
  note b = clamp_text_pos_bounds [OF assms(3,4,5)]
  show ?thesis
  proof (cases "scale \<le> 1 \<and> bg = None")
    case True
    then have wh: "w = 8 * int (length text)" "h = 8"
      using assms(2) by (auto simp: get_text_size_def Let_def)
    have "snd (draw_text glyphs g x y text colour bg scale)
            = set_window x' y' (x' + w - 1) (y' + h - 1)
              @ write_data (small_text_buf glyphs text colour None)"
      using True assms(5) by (simp add: draw_text_fast [OF assms(1)] wh blit_rgb565_def)
    moreover have "int (length (small_text_buf glyphs text colour None)) = 2 * w * h"
      by (simp add: wh)
    ultimately show ?thesis using b by blast
  next
    case False
    then have sp: "1 < scale \<or> bg \<noteq> None" by auto
    define spr where "spr = fst (get_text_sprite glyphs g text colour bg (max 1 scale))"
    have d: "snd (draw_text glyphs g x y text colour bg scale)
               = set_window x' y' (x' + spr_w spr - 1) (y' + spr_h spr - 1) @ write_data (spr_data spr)"
      using assms(2,5)
      by (simp add: draw_text_sprite_path [OF assms(1) sp] spr_def draw_sprite_def
            draw_image_rgb565_def blit_rgb565_def)
    have miss: "text_cache g (text, colour, bg, max 1 scale) = None \<Longrightarrow>
                  spr = render_text_sprite glyphs text colour bg (max 1 scale)"
      by (simp add: spr_def get_text_sprite_def Let_def)
    have sz: "get_text_size text (max 1 scale) = (w, h)"
      using assms(2) by (auto simp: get_text_size_def Let_def max_def)
    have "text_cache g (text, colour, bg, max 1 scale) = None \<Longrightarrow>
            spr_w spr = w \<and> spr_h spr = h \<and> int (length (spr_data spr)) = 2 * w * h"
      using render_dims [of glyphs "text" colour bg "max 1 scale"] miss sz by simp
    with d b False show ?thesis by auto
  qed
qed

theorem draw_text_clamps_witness:
  "clamp_text_pos PicoGFX_init 236 (-3) 48 16 = (192, 0)
   \<and> (\<exists>data. int (length data) = 2 * 48 * 16
           \<and> snd (draw_text blank_glyphs PicoGFX_init 236 (-3) ''HIT'' 0xFFFF None 2)
               = set_window 192 0 239 15 @ write_data data)"
proof -
  have c: "clamp_text_pos PicoGFX_init 236 (-3) 48 16 = (192, 0)"
    by (simp add: clamp_text_pos_def PicoGFX_init_def ILI9341_init_def)
  have s: "get_text_size ''HIT'' 2 = (48, 16)" by (simp add: get_text_size_def)
  from draw_text_clamps [OF _ s _ _ c, of blank_glyphs "0xFFFF" None] c
  show ?thesis by (simp add: PicoGFX_init_def ILI9341_init_def)
qed

section \<open>The direct text path and the sprite path (C9)\<close>

text \<open>
  Claim C9. For every non-empty text, colour and position, \<open>draw_text\<close> at scale 1 with
  no background, which goes through the driver's \<open>text\<close>, puts on the bus exactly what
  drawing the sprite for the key \<open>(text, colour, None, 1)\<close> at the clamped position would:
  the window of the \<open>8 * len(text)\<close> by 8 cell, and a buffer that is zero (black,
  \<open>0x0000\<close>) wherever the glyph writer stored nothing. The cache holds no sprite for the
  key or the one rendered for it, as \<open>_get_text_sprite\<close> leaves it.
\<close>

theorem fast_text_path_is_sprite_path:
  assumes "text \<noteq> []"
      and "clamp_text_pos g x y (8 * int (length text)) 8 = (x', y')"
      and "text_cache g (text, colour, None, 1) = None
           \<or> text_cache g (text, colour, None, 1) = Some (render_text_sprite glyphs text colour None 1)"
  shows "snd (draw_text glyphs g x y text colour None 1)
           = draw_sprite (fst (get_text_sprite glyphs g text colour None 1)) x' y'
       \<and> snd (draw_text glyphs g x y text colour None 1)
           = set_window x' y' (x' + 8 * int (length text) - 1) (y' + 8 - 1)
             @ write_data (fb_text glyphs text colour (replicate (128 * length text) 0))
       \<and> (\<forall>i < 128 * length text. glyphs text colour i = None \<longrightarrow>
             fb_text glyphs text colour (replicate (128 * length text) 0) ! i = 0)"
proof -
  have buf: "small_text_buf glyphs text colour None
               = fb_text glyphs text colour (replicate (128 * length text) 0)"
  proof -
    have "concat (replicate (64 * length text) [0, 0 :: int]) = replicate (128 * length text) 0"
      by (rule nth_equalityI) (simp_all add: nth_pairs)
    then show ?thesis by (simp add: small_text_buf_eq)
  qed
  have spr: "fst (get_text_sprite glyphs g text colour None 1)
               = render_text_sprite glyphs text colour None 1"
    using assms(3) by (auto simp: get_text_sprite_def Let_def)
  have fast: "snd (draw_text glyphs g x y text colour None 1)
                = blit_rgb565 x' y' (8 * int (length text)) 8 (small_text_buf glyphs text colour None)"
    using assms(2) by (simp add: draw_text_fast [OF assms(1)])
  have slow: "draw_sprite (fst (get_text_sprite glyphs g text colour None 1)) x' y'
                = blit_rgb565 x' y' (8 * int (length text)) 8 (small_text_buf glyphs text colour None)"
    by (simp add: spr render_scale_one draw_sprite_def draw_image_rgb565_def)
  have zero: "\<forall>i < 128 * length text. glyphs text colour i = None \<longrightarrow>
             fb_text glyphs text colour (replicate (128 * length text) 0) ! i = 0"
    by (simp add: fb_text_nth)
  have "blit_rgb565 x' y' (8 * int (length text)) 8 (small_text_buf glyphs text colour None)
          = set_window x' y' (x' + 8 * int (length text) - 1) (y' + 8 - 1)
            @ write_data (fb_text glyphs text colour (replicate (128 * length text) 0))"
    by (simp only: blit_rgb565_def buf)
  with fast slow zero show ?thesis by simp
qed

theorem fast_text_path_is_sprite_path_witness:
  "snd (draw_text stripe_glyphs PicoGFX_init 10 300 ''OK'' 0xF81F None 1)
     = draw_sprite (fst (get_text_sprite stripe_glyphs PicoGFX_init ''OK'' 0xF81F None 1)) 10 300
   \<and> snd (draw_text stripe_glyphs PicoGFX_init 10 300 ''OK'' 0xF81F None 1)
     = set_window 10 300 25 307 @ write_data (fb_text stripe_glyphs ''OK'' 0xF81F (replicate 256 0))"
proof -
  have c: "clamp_text_pos PicoGFX_init 10 300 (8 * int (length ''OK'')) 8 = (10, 300)"
    by (simp add: clamp_text_pos_def PicoGFX_init_def ILI9341_init_def)
  have e: "text_cache PicoGFX_init (''OK'', 0xF81F, None, 1) = None
         \<or> text_cache PicoGFX_init (''OK'', 0xF81F, None, 1)
             = Some (render_text_sprite stripe_glyphs ''OK'' 0xF81F None 1)"
    by (simp add: PicoGFX_init_def)
  have ne: "''OK'' \<noteq> []" by simp
  note t = fast_text_path_is_sprite_path [OF ne c e]
  from t [THEN conjunct1] have a:
    "snd (draw_text stripe_glyphs PicoGFX_init 10 300 ''OK'' 0xF81F None 1)
       = draw_sprite (fst (get_text_sprite stripe_glyphs PicoGFX_init ''OK'' 0xF81F None 1)) 10 300" .
  from t [THEN conjunct2, THEN conjunct1] have b:
    "snd (draw_text stripe_glyphs PicoGFX_init 10 300 ''OK'' 0xF81F None 1)
       = set_window 10 300 25 307 @ write_data (fb_text stripe_glyphs ''OK'' 0xF81F (replicate 256 0))"
    by simp
  from a b show ?thesis by (rule conjI)
qed

section \<open>Engine lemmas\<close>

lemma update_input_current:
  "current_input (update_input p e) =
     (let raw = (case p of None \<Rightarrow> InputState_init | Some r \<Rightarrow> r); prev = current_input e in
      \<lparr>up = up raw, down = down raw, left = left raw, right = right raw,
       btn_a = btn_a raw, btn_b = btn_b raw,
       up_pressed = up raw \<and> \<not> up prev, down_pressed = down raw \<and> \<not> down prev,
       left_pressed = left raw \<and> \<not> left prev, right_pressed = right raw \<and> \<not> right prev,
       a_pressed = btn_a raw \<and> \<not> btn_a prev, b_pressed = btn_b raw \<and> \<not> btn_b prev\<rparr>)"
  by (simp add: update_input_def InputState_init_def Let_def)

lemma update_input_other [simp]:
  "last_up_press_time (update_input p e) = last_up_press_time e"
  "double_tap_threshold_ms (update_input p e) = double_tap_threshold_ms e"
  "running (update_input p e) = running e"
  "gfx (update_input p e) = gfx e"
  "frame_time_ms (update_input p e) = frame_time_ms e"
  by (simp_all add: update_input_def Let_def)

lemma frame_body_eng:
  "current_input (eng (fst (frame_body td game env dt st calls))) = current_input (eng st)"
  "last_up_press_time (eng (fst (frame_body td game env dt st calls))) = last_up_press_time (eng st)"
  "running (eng (fst (frame_body td game env dt st calls))) = running (eng st)"
  "double_tap_threshold_ms (eng (fst (frame_body td game env dt st calls))) = double_tap_threshold_ms (eng st)"
  by (simp_all add: frame_body_def Let_def split: prod.splits option.splits)

lemma run_tick_current_input:
  "current_input (eng (fst (run_tick td game env st)))
     = current_input (update_input (provided_input env) (eng st))"
  by (simp add: run_tick_def Let_def frame_body_eng split: prod.splits option.splits)

lemma run_tick_running:
  "running (eng (fst (run_tick td game env st))) = running (eng st)"
  by (simp add: run_tick_def Let_def frame_body_eng split: prod.splits option.splits)

lemma run_tick_flags:
  "pressed_flags (current_input (eng (fst (run_tick td game env st))))
     = edge_flags (raw_of env) (current_input (eng st))"
  by (simp add: run_tick_current_input update_input_current pressed_flags_def edge_flags_def
        raw_of_def Let_def)

lemma edge_flags_after_tick:
  "edge_flags raw (current_input (eng (fst (run_tick td game env st)))) = edge_flags raw (raw_of env)"
  by (simp add: run_tick_current_input update_input_current edge_flags_def raw_of_def Let_def)

lemma run_ticks_length:
  "running (eng st) \<Longrightarrow> length (run_ticks td game envs st) = length envs"
  by (induction envs arbitrary: st) (simp_all add: Let_def run_tick_running)

lemma run_ticks_flags:
  "i < length (run_ticks td game envs st) \<Longrightarrow>
     pressed_flags (current_input (eng (fst (run_ticks td game envs st ! i))))
       = edge_flags (raw_of (envs ! i))
           (if i = 0 then current_input (eng st) else raw_of (envs ! (i - 1)))"
proof (induction envs arbitrary: st i)
  case Nil
  then show ?case by simp
next
  case (Cons env envs)
  from Cons.prems have run: "running (eng st)" by (auto split: if_splits)
  show ?case
  proof (cases i)
    case 0
    with run show ?thesis by (simp add: Let_def run_tick_flags)
  next
    case (Suc j)
    with Cons.prems run have j: "j < length (run_ticks td game envs (fst (run_tick td game env st)))"
      by (simp add: Let_def)
    from Cons.IH [OF j] Suc run show ?thesis
      by (cases j) (simp_all add: Let_def edge_flags_after_tick)
  qed
qed

section \<open>Edge-triggered input (C1)\<close>

text \<open>
  Claim C1. At every tick of the engine loop and for each of the six buttons, the
  just-pressed flag that the tick leaves in the current input is the raw level of the tick
  and not the raw level before it: that of the previous tick, or the engine's current
  input for the first tick. The loop makes one tick for every sample it is given. With up
  at the levels F, T, T, F, T over five ticks on a fresh engine, \<open>up_pressed\<close> holds at
  ticks 2 and 5 only.
\<close>

theorem pressed_is_rising_edge:
  "(\<forall>i < length (run td game t0 envs e g).
      pressed_flags (current_input (eng (fst (run td game t0 envs e g ! i))))
        = edge_flags (raw_of (envs ! i))
            (if i = 0 then current_input e else raw_of (envs ! (i - 1))))
   \<and> length (run td game t0 envs e g) = length envs
   \<and> map (\<lambda>r. up_pressed (current_input (eng (fst r))))
         (run td game t0
            [up_sample t1 False, up_sample t2 True, up_sample t3 True, up_sample t4 False,
             up_sample t5 True]
            (Engine_init x) g)
       = [False, True, False, False, True]"
proof (intro conjI allI impI)
  fix i assume "i < length (run td game t0 envs e g)"
  then show "pressed_flags (current_input (eng (fst (run td game t0 envs e g ! i))))
        = edge_flags (raw_of (envs ! i))
            (if i = 0 then current_input e else raw_of (envs ! (i - 1)))"
    unfolding run_def using run_ticks_flags [of i td game envs] by simp
next
  show "length (run td game t0 envs e g) = length envs"
    by (simp add: run_def run_ticks_length)
next
  show "map (\<lambda>r. up_pressed (current_input (eng (fst r))))
         (run td game t0
            [up_sample t1 False, up_sample t2 True, up_sample t3 True, up_sample t4 False,
             up_sample t5 True]
            (Engine_init x) g)
       = [False, True, False, False, True]"
    by (simp add: run_def Let_def run_tick_running run_tick_current_input update_input_current
          up_sample_def Engine_init_def InputState_init_def)
qed

theorem pressed_is_rising_edge_witness:
  "pressed_flags (current_input (eng (fst (run plain_ticks_diff counting_game 0
       [up_sample 10 True, up_sample 50 True] (Engine_init ()) [] ! 1))))
     = [False, False, False, False, False, False]"
proof -
  have l: "1 < length (run plain_ticks_diff counting_game 0
       [up_sample 10 True, up_sample 50 True] (Engine_init ()) [])"
    using pressed_is_rising_edge [of plain_ticks_diff counting_game 0 "[up_sample 10 True, up_sample 50 True]" "Engine_init ()" "[]"]
    by simp
  from pressed_is_rising_edge [of plain_ticks_diff counting_game 0 "[up_sample 10 True, up_sample 50 True]" "Engine_init ()" "[]",
        THEN conjunct1, rule_format, OF l]
  show ?thesis
    by (simp add: edge_flags_def raw_of_def up_sample_def InputState_init_def)
qed

lemma call_if_calls:
  "snd (call_if p h c st) = snd st @ (if p \<and> h \<noteq> None then [c] else [])"
  by (cases h) (simp_all add: call_if_def)

lemma dispatch_calls:
  "snd (dispatch_input_events game e g) =
     (if up_pressed (current_input e) \<and> on_up_pressed game \<noteq> None then [OnUpPressed] else [])
   @ (if down_pressed (current_input e) \<and> on_down_pressed game \<noteq> None then [OnDownPressed] else [])
   @ (if left_pressed (current_input e) \<and> on_left_pressed game \<noteq> None then [OnLeftPressed] else [])
   @ (if right_pressed (current_input e) \<and> on_right_pressed game \<noteq> None then [OnRightPressed] else [])
   @ (if a_pressed (current_input e) \<and> on_a_pressed game \<noteq> None then [OnAPressed] else [])
   @ (if b_pressed (current_input e) \<and> on_b_pressed game \<noteq> None then [OnBPressed] else [])"
  by (simp add: dispatch_input_events_def Let_def call_if_calls)

lemma dispatch_button_calls:
  "set (snd (dispatch_input_events game e g)) \<subseteq> button_calls"
  by (auto simp: dispatch_calls button_calls_def split: if_splits)

lemma dispatch_up_first:
  "up_pressed (current_input e) \<Longrightarrow> on_up_pressed game \<noteq> None \<Longrightarrow>
     \<exists>rest. snd (dispatch_input_events game e g) = OnUpPressed # rest"
  by (simp add: dispatch_calls)

lemma frame_body_calls:
  "\<exists>more. snd (frame_body td game env dt st calls)
            = calls @ Update dt (current_input (eng st)) # more
         \<and> (\<forall>c \<in> set more. frame_call c)"
  by (auto simp: frame_body_def Let_def split: prod.splits option.splits)

lemma double_tap_iff:
  "double_tap td env st \<longleftrightarrow>
     up_pressed (current_input (update_input (provided_input env) (eng st))) \<and>
     (\<exists>t. last_up_press_time (eng st) = Some t \<and> td (now_ms env) t \<le> double_tap_threshold_ms (eng st))"
  by (auto simp: double_tap_def update_input_current raw_of_def Let_def split: option.splits)

lemma run_tick_fires:
  assumes "double_tap td env st"
  shows "run_tick td game env st =
           (st\<lparr>last_time := now_ms env,
               game_state := (case reset game of
                                None \<Rightarrow> fst (dispatch_input_events game
                                           (update_input (provided_input env) (eng st)) (game_state st))
                              | Some f \<Rightarrow> f (fst (dispatch_input_events game
                                           (update_input (provided_input env) (eng st)) (game_state st)))),
               eng := (update_input (provided_input env) (eng st))\<lparr>last_up_press_time := None\<rparr>\<rparr>,
            snd (dispatch_input_events game (update_input (provided_input env) (eng st)) (game_state st))
            @ (case reset game of None \<Rightarrow> [] | Some f \<Rightarrow> [Reset]))"
  using assms [unfolded double_tap_iff]
  by (auto simp: run_tick_def Let_def split: prod.splits option.splits)

lemma run_tick_no_fire:
  assumes "\<not> double_tap td env st"
  shows "run_tick td game env st =
           frame_body td game env (real_of_int (td (now_ms env) (last_time st)) / 1000)
             (st\<lparr>last_time := now_ms env,
                 game_state := fst (dispatch_input_events game
                                 (update_input (provided_input env) (eng st)) (game_state st)),
                 eng := (if up_pressed (current_input (update_input (provided_input env) (eng st)))
                         then (update_input (provided_input env) (eng st))
                                \<lparr>last_up_press_time := Some (now_ms env)\<rparr>
                         else update_input (provided_input env) (eng st))\<rparr>)
             (snd (dispatch_input_events game (update_input (provided_input env) (eng st)) (game_state st)))"
  using assms [unfolded double_tap_iff]
  by (auto simp: run_tick_def Let_def split: prod.splits option.splits)

lemma call_if_state:
  "fst st = fst st' \<Longrightarrow> fst (call_if p h c st) = fst (call_if p h c st')"
  by (cases h) (simp_all add: call_if_def)

lemma dispatch_up_state:
  "up_pressed (current_input e) \<Longrightarrow> on_up_pressed game = Some h \<Longrightarrow>
     fst (dispatch_input_events game e g)
       = fst (dispatch_input_events (game\<lparr>on_up_pressed := None\<rparr>) e (h g))"
proof -
  assume "up_pressed (current_input e)" "on_up_pressed game = Some h"
  then have "fst (call_if (up_pressed (current_input e)) (on_up_pressed game) OnUpPressed (g, []))
               = fst (call_if (up_pressed (current_input e)) None OnUpPressed (h g, []))"
    by (simp add: call_if_def)
  then show ?thesis
    unfolding dispatch_input_events_def Let_def
    by (simp del: fst_conv) (intro call_if_state)
qed

lemma button_not_frame: "c \<in> button_calls \<Longrightarrow> \<not> frame_call c \<and> c \<noteq> Reset"
  by (auto simp: button_calls_def)

lemma frame_not_reset: "frame_call c \<Longrightarrow> c \<noteq> Reset"
  by (cases c) simp_all

lemma run_tick_threshold:
  "double_tap_threshold_ms (eng (fst (run_tick td game env st))) = double_tap_threshold_ms (eng st)"
  by (simp add: run_tick_def Let_def frame_body_eng split: prod.splits option.splits)

section \<open>Double-tap recognition (C2)\<close>

text \<open>
  Claim C2. At every tick, the double-tap gesture fires exactly when there is a press edge
  on up while a candidate time is recorded and the time since the candidate is at most the
  threshold (400 ms in the engine as constructed). A tick on which it fires makes none of
  the calls of update, draw and pacing, and a tick on which it does not fire makes the
  update call; where the game has a reset handler, the tick calls it exactly when the
  gesture fires. Firing clears the candidate, so that the gesture cannot fire at the next
  tick whatever that tick's input and time are, and the game is left in the state its
  reset handler returns. A tick that does not fire records the time of a press edge on up
  as the new candidate. No tick changes the threshold, which the constructor sets to 400.
\<close>

theorem double_tap_recognition:
  "(double_tap td env st \<longleftrightarrow> \<not> (\<exists>c \<in> set (snd (run_tick td game env st)). frame_call c))
   \<and> (reset game \<noteq> None \<longrightarrow>
        (double_tap td env st \<longleftrightarrow> Reset \<in> set (snd (run_tick td game env st))))
   \<and> (double_tap td env st \<longrightarrow>
        last_up_press_time (eng (fst (run_tick td game env st))) = None
      \<and> snd (run_tick td game env st)
          = snd (dispatch_input_events game (update_input (provided_input env) (eng st)) (game_state st))
            @ (case reset game of None \<Rightarrow> [] | Some f \<Rightarrow> [Reset])
      \<and> game_state (fst (run_tick td game env st))
          = (case reset game of
               None \<Rightarrow> fst (dispatch_input_events game
                          (update_input (provided_input env) (eng st)) (game_state st))
             | Some f \<Rightarrow> f (fst (dispatch_input_events game
                          (update_input (provided_input env) (eng st)) (game_state st))))
      \<and> (\<forall>env'. \<not> double_tap td env' (fst (run_tick td game env st))))
   \<and> (\<not> double_tap td env st \<longrightarrow>
        (\<exists>more. snd (run_tick td game env st)
                  = snd (dispatch_input_events game (update_input (provided_input env) (eng st))
                          (game_state st))
                    @ Update (real_of_int (td (now_ms env) (last_time st)) / 1000)
                        (current_input (update_input (provided_input env) (eng st)))
                      # more)
      \<and> last_up_press_time (eng (fst (run_tick td game env st)))
          = (if up (raw_of env) \<and> \<not> up (current_input (eng st)) then Some (now_ms env)
             else last_up_press_time (eng st)))
   \<and> double_tap_threshold_ms (eng (fst (run_tick td game env st))) = double_tap_threshold_ms (eng st)
   \<and> double_tap_threshold_ms (Engine_init (gfx (eng st))) = 400"
proof (cases "double_tap td env st")
  case True
  let ?D = "dispatch_input_events game (update_input (provided_input env) (eng st)) (game_state st)"
  have calls: "snd (run_tick td game env st) = snd ?D @ (case reset game of None \<Rightarrow> [] | Some f \<Rightarrow> [Reset])"
    by (simp add: run_tick_fires [OF True])
  have nf: "\<not> (\<exists>c \<in> set (snd (run_tick td game env st)). frame_call c)"
    using dispatch_button_calls [of game "update_input (provided_input env) (eng st)" "game_state st"]
          button_not_frame
    by (auto simp: calls split: option.splits)
  have rs: "reset game \<noteq> None \<longrightarrow> Reset \<in> set (snd (run_tick td game env st))"
    by (auto simp: calls)
  have cleared: "last_up_press_time (eng (fst (run_tick td game env st))) = None"
    by (simp add: run_tick_fires [OF True])
  then have again: "\<forall>env'. \<not> double_tap td env' (fst (run_tick td game env st))"
    by (simp add: double_tap_def)
  have gs: "game_state (fst (run_tick td game env st))
          = (case reset game of None \<Rightarrow> fst ?D | Some f \<Rightarrow> f (fst ?D))"
    by (simp add: run_tick_fires [OF True])
  have thr: "double_tap_threshold_ms (Engine_init (gfx (eng st))) = 400"
    by (simp add: Engine_init_def)
  from True calls nf rs cleared again gs thr show ?thesis by (simp add: run_tick_threshold)
next
  case False
  let ?e = "update_input (provided_input env) (eng st)"
  let ?D = "dispatch_input_events game ?e (game_state st)"
  let ?dt = "real_of_int (td (now_ms env) (last_time st)) / 1000"
  let ?st = "st\<lparr>last_time := now_ms env, game_state := fst ?D,
                 eng := (if up_pressed (current_input ?e)
                         then ?e\<lparr>last_up_press_time := Some (now_ms env)\<rparr> else ?e)\<rparr>"
  have rt: "run_tick td game env st = frame_body td game env ?dt ?st (snd ?D)"
    by (rule run_tick_no_fire [OF False])
  from frame_body_calls [of td game env ?dt ?st "snd ?D"]
  obtain more where more: "snd (run_tick td game env st)
        = snd ?D @ Update ?dt (current_input (eng ?st)) # more" "\<forall>c \<in> set more. frame_call c"
    unfolding rt by blast
  have ci: "current_input (eng ?st) = current_input ?e" by simp
  have upd: "\<exists>c \<in> set (snd (run_tick td game env st)). frame_call c"
    by (simp add: more(1))
  have nr: "Reset \<notin> set (snd (run_tick td game env st))"
    using dispatch_button_calls [of game ?e "game_state st"] button_not_frame more(2) frame_not_reset
    by (auto simp: more(1))
  have lt: "last_up_press_time (eng (fst (run_tick td game env st)))
          = (if up (raw_of env) \<and> \<not> up (current_input (eng st)) then Some (now_ms env)
             else last_up_press_time (eng st))"
    by (simp add: rt frame_body_eng update_input_current raw_of_def Let_def)
  have ex: "\<exists>more. snd (run_tick td game env st) = snd ?D @ Update ?dt (current_input ?e) # more"
    using more(1) ci by auto
  have thr: "double_tap_threshold_ms (Engine_init (gfx (eng st))) = 400"
    by (simp add: Engine_init_def)
  from False upd nr lt ex thr show ?thesis by (simp add: run_tick_threshold)
qed

section \<open>Button dispatch on a double-tap tick (C10)\<close>

text \<open>
  Claim C10. On every tick on which the double tap fires, a game that defines
  \<open>on_up_pressed\<close> has it called, first of all the calls of the tick and before \<open>reset\<close>:
  the calls of the tick are those of button dispatch, as on any other tick, followed by
  the call of \<open>reset\<close> where the game has one, and none of update, draw and pacing. The
  game's state is the one \<open>reset\<close> returns on the state that the button handlers left,
  the handler for up having run first.
\<close>

theorem up_handler_runs_before_reset:
  assumes "double_tap td env st" and "on_up_pressed game = Some h"
  shows "(\<exists>rest. snd (run_tick td game env st)
                   = OnUpPressed # rest @ (case reset game of None \<Rightarrow> [] | Some f \<Rightarrow> [Reset])
                \<and> set rest \<subseteq> button_calls)
       \<and> snd (run_tick td game env st)
           = snd (dispatch_input_events game (update_input (provided_input env) (eng st)) (game_state st))
             @ (case reset game of None \<Rightarrow> [] | Some f \<Rightarrow> [Reset])
       \<and> game_state (fst (run_tick td game env st))
           = (case reset game of None \<Rightarrow> (\<lambda>g. g) | Some f \<Rightarrow> f)
               (fst (dispatch_input_events (game\<lparr>on_up_pressed := None\<rparr>)
                       (update_input (provided_input env) (eng st)) (h (game_state st))))
       \<and> (\<forall>c \<in> set (snd (run_tick td game env st)). \<not> frame_call c)"
proof -
  let ?e = "update_input (provided_input env) (eng st)"
  let ?D = "dispatch_input_events game ?e (game_state st)"
  let ?R = "case reset game of None \<Rightarrow> [] | Some f \<Rightarrow> [Reset]"
  from assms(1) have up: "up_pressed (current_input ?e)" by (simp add: double_tap_iff)
  have calls: "snd (run_tick td game env st) = snd ?D @ ?R"
    by (simp add: run_tick_fires [OF assms(1)])
  from dispatch_up_first [OF up, of game "game_state st"] assms(2)
  obtain rest where rest: "snd ?D = OnUpPressed # rest" by auto
  with dispatch_button_calls [of game ?e "game_state st"] have sub: "set rest \<subseteq> button_calls"
    by simp
  have gs: "game_state (fst (run_tick td game env st))
           = (case reset game of None \<Rightarrow> (\<lambda>g. g) | Some f \<Rightarrow> f)
               (fst (dispatch_input_events (game\<lparr>on_up_pressed := None\<rparr>) ?e (h (game_state st))))"
    by (simp add: run_tick_fires [OF assms(1)] dispatch_up_state [OF up assms(2)] split: option.splits)
  have nf: "\<forall>c \<in> set (snd (run_tick td game env st)). \<not> frame_call c"
    using dispatch_button_calls [of game ?e "game_state st"] button_not_frame
    by (auto simp: calls split: option.splits)
  from calls rest sub gs nf show ?thesis by simp
qed

section \<open>A double tap, computed\<close>

text \<open>
  The two theorems on the gesture at a concrete tick: up is pressed at 300 ms on the loop
  that recorded a press at 100 ms, with the counting game.
\<close>

lemma armed_double_tap: "double_tap plain_ticks_diff (up_sample 300 True) armed_state"
  by (simp add: double_tap_def up_sample_def raw_of_def Engine_init_def InputState_init_def
        plain_ticks_diff_def armed_state_def)

lemma armed_dispatch:
  "dispatch_input_events counting_game
     (update_input (provided_input (up_sample 300 True)) (eng armed_state))
     (game_state armed_state) = ([OnUpPressed], [OnUpPressed])"
  by (simp add: dispatch_input_events_def call_if_def Let_def counting_game_def
        update_input_def up_sample_def Engine_init_def InputState_init_def armed_state_def)

lemma counting_game_reset: "reset counting_game = Some (\<lambda>g. g @ [Reset])"
  by (simp add: counting_game_def)

theorem double_tap_recognition_witness:
  "snd (run_tick plain_ticks_diff counting_game (up_sample 300 True) armed_state)
     = [OnUpPressed, Reset]
   \<and> last_up_press_time
       (eng (fst (run_tick plain_ticks_diff counting_game (up_sample 300 True) armed_state))) = None
   \<and> game_state (fst (run_tick plain_ticks_diff counting_game (up_sample 300 True) armed_state))
       = [OnUpPressed, Reset]"
proof -
  note t = double_tap_recognition
             [of plain_ticks_diff "up_sample 300 True" armed_state counting_game,
              THEN conjunct2, THEN conjunct2, THEN conjunct1, THEN mp, OF armed_double_tap]
  from t [THEN conjunct1]
  have a: "last_up_press_time
       (eng (fst (run_tick plain_ticks_diff counting_game (up_sample 300 True) armed_state))) = None" .
  from t [THEN conjunct2, THEN conjunct1]
  have b: "snd (run_tick plain_ticks_diff counting_game (up_sample 300 True) armed_state)
     = [OnUpPressed, Reset]"
    by (simp only: armed_dispatch counting_game_reset option.case snd_conv append.simps)
  from t [THEN conjunct2, THEN conjunct2, THEN conjunct1]
  have c: "game_state (fst (run_tick plain_ticks_diff counting_game (up_sample 300 True) armed_state))
       = [OnUpPressed, Reset]"
    by (simp only: armed_dispatch counting_game_reset option.case fst_conv append.simps)
  from b a c show ?thesis by (intro conjI)
qed

theorem up_handler_runs_before_reset_witness:
  "(\<exists>rest. snd (run_tick plain_ticks_diff counting_game (up_sample 300 True) armed_state)
             = OnUpPressed # rest @ [Reset])
   \<and> game_state (fst (run_tick plain_ticks_diff counting_game (up_sample 300 True) armed_state))
       = [OnUpPressed, Reset]"
proof -
  have h: "on_up_pressed counting_game = Some (\<lambda>g. g @ [OnUpPressed])"
    by (simp add: counting_game_def)
  have d: "fst (dispatch_input_events (counting_game\<lparr>on_up_pressed := None\<rparr>)
             (update_input (provided_input (up_sample 300 True)) (eng armed_state))
             ((\<lambda>g. g @ [OnUpPressed]) (game_state armed_state))) = [OnUpPressed]"
    by (simp add: dispatch_input_events_def call_if_def Let_def counting_game_def armed_state_def)
  note t = up_handler_runs_before_reset [OF armed_double_tap h]
  from t [THEN conjunct1]
  have a: "\<exists>rest. snd (run_tick plain_ticks_diff counting_game (up_sample 300 True) armed_state)
             = OnUpPressed # rest @ [Reset]"
    by (simp only: counting_game_reset option.case) blast
  from t [THEN conjunct2, THEN conjunct2, THEN conjunct1]
  have b: "game_state (fst (run_tick plain_ticks_diff counting_game (up_sample 300 True) armed_state))
       = [OnUpPressed, Reset]"
    by (simp only: d counting_game_reset option.case append.simps)
  from a b show ?thesis by (rule conjI)
qed

end
